theory Spec2Isabelle
  imports Main "HOL-Library.AList" "HOL-Library.Sublist"
begin

section \<open>Results of fallible operations\<close>

text \<open>
  The TypeScript sources throw in two ways that matter here: a failed \<^verbatim>\<open>Debug.assert\<close>
  and a property access on \<^verbatim>\<open>undefined\<close>. A loop without an exit guard may also not return.
  An operation therefore yields \<open>None\<close> when it does not return, \<open>Some (Inl e)\<close> when it
  throws \<open>e\<close>, and \<open>Some (Inr x)\<close> when it returns \<open>x\<close>.
\<close>

datatype error = AssertionFailure | TypeError

type_synonym 'a result = "(error + 'a) option"

abbreviation Ok :: "'a \<Rightarrow> 'a result" where
  "Ok x \<equiv> Some (Inr x)"

abbreviation Throw :: "error \<Rightarrow> 'a result" where
  "Throw e \<equiv> Some (Inl e)"

definition andThen :: "'a result \<Rightarrow> ('a \<Rightarrow> 'b result) \<Rightarrow> 'b result" where
  "andThen m f = (case m of None \<Rightarrow> None | Some (Inl e) \<Rightarrow> Some (Inl e) | Some (Inr x) \<Rightarrow> f x)"

fun forEachM :: "('a \<Rightarrow> 's \<Rightarrow> 's result) \<Rightarrow> 'a list \<Rightarrow> 's \<Rightarrow> 's result" where
  "forEachM f [] s = Ok s"
| "forEachM f (x # xs) s = andThen (f x s) (forEachM f xs)"

section \<open>Strings and paths (resolutionCache.ts, with the string helpers of core.ts)\<close>

type_synonym path = string

definition directorySeparator :: char where
  "directorySeparator = CHR ''/''"

definition startsWith :: "string \<Rightarrow> string \<Rightarrow> bool" where
  "startsWith str pre = prefix pre str"

definition endsWith :: "string \<Rightarrow> string \<Rightarrow> bool" where
  "endsWith str suf = suffix suf str"

text \<open>\<^verbatim>\<open>str.indexOf(sub) !== -1\<close>\<close>

definition containsString :: "string \<Rightarrow> string \<Rightarrow> bool" where
  "containsString str sub = sublist sub str"

text \<open>
  \<^verbatim>\<open>isInDirectoryPath(dir, file)\<close>: \<^verbatim>\<open>dir\<close> may be \<^verbatim>\<open>undefined\<close>; \<^verbatim>\<open>file[dir.length]\<close> is
  read only when \<^verbatim>\<open>file\<close> is longer than \<^verbatim>\<open>dir\<close>.
\<close>

definition isInDirectoryPath :: "path option \<Rightarrow> path \<Rightarrow> bool" where
  "isInDirectoryPath d file =
     (case d of
        None \<Rightarrow> False
      | Some p \<Rightarrow>
          if length file \<le> length p then False
          else startsWith file p \<and> file ! length p = directorySeparator)"

definition isNodeModulesDirectory :: "path \<Rightarrow> bool" where
  "isNodeModulesDirectory dirPath = endsWith dirPath ''/node_modules''"

text \<open>
  \<^verbatim>\<open>failedLookupDefaultExtensions\<close> and \<^verbatim>\<open>fileExtensionIsOneOf\<close>: the path is longer than the
  extension and ends with it.
\<close>

definition failedLookupDefaultExtensions :: "string list" where
  "failedLookupDefaultExtensions = [''.ts'', ''.tsx'', ''.js'', ''.jsx'', ''.json'']"

definition fileExtensionIs :: "string \<Rightarrow> string \<Rightarrow> bool" where
  "fileExtensionIs p extension = (length extension < length p \<and> endsWith p extension)"

definition isPathWithDefaultFailedLookupExtension :: "path \<Rightarrow> bool" where
  "isPathWithDefaultFailedLookupExtension p =
     list_ex (fileExtensionIs p) failedLookupDefaultExtensions"

section \<open>Data model of the resolution cache\<close>

type_synonym ref = nat

text \<open>
  \<^verbatim>\<open>ResolutionWithResolvedFileName\<close>: the object returned by \<^verbatim>\<open>getResolvedModule\<close> or
  \<^verbatim>\<open>getResolvedTypeReferenceDirective\<close>; \<^verbatim>\<open>resolvedFileName: string | undefined\<close>.
\<close>

record ResolutionWithResolvedFileName =
  resolvedFileName :: "string option"

text \<open>
  \<^verbatim>\<open>ResolutionWithFailedLookupLocations\<close> together with its resolved module or type reference
  directive. Resolution objects are shared between the per-file and the per-directory maps and
  \<^verbatim>\<open>isInvalidated\<close> is set in place, so the objects live in a store and the maps hold
  references.
\<close>

record resolution =
  failedLookupLocations :: "string list option"
  resolvedResult :: "ResolutionWithResolvedFileName option"
  isInvalidated :: bool

record DirectoryWatchesOfFailedLookup =
  watcher :: string
  refCount :: int

datatype host_event =
    WatchDirectoryOfFailedLookupLocation string
  | WatchTypeRootsDirectory string
  | CloseWatcher string
  | OnInvalidatedResolution

text \<open>
  What a loader returns for a name and a containing file: the failed lookup locations and the
  resolved result of a fresh resolution object.
\<close>

type_synonym loader = "string \<Rightarrow> string \<Rightarrow> string list option \<times> ResolutionWithResolvedFileName option"

text \<open>
  \<^verbatim>\<open>ResolutionCacheHost\<close> and the constants of the closure of \<^verbatim>\<open>createResolutionCache\<close>.
  \<^verbatim>\<open>toPath\<close>, \<^verbatim>\<open>getDirectoryPath\<close> and \<^verbatim>\<open>getNormalizedAbsolutePath\<close> (at the current directory)
  and the two loaders are code outside these sources; they are parameters.
  \<^verbatim>\<open>toPathUndefined\<close> is what the host's \<^verbatim>\<open>toPath\<close> yields for an \<^verbatim>\<open>undefined\<close> file name.
  \<open>rootDir\<close> is the constant of the closure: the normalised absolute root directory without
  a trailing separator, or \<^verbatim>\<open>undefined\<close>.
  \<open>optionsTypes\<close> is whether the compilation settings have \<^verbatim>\<open>types\<close>, \<open>effectiveTypeRoots\<close>
  the answer of \<^verbatim>\<open>getEffectiveTypeRoots\<close>.
\<close>

record ResolutionCacheHost =
  toPath :: "string \<Rightarrow> path"
  toPathUndefined :: path
  getDirectoryPath :: "string \<Rightarrow> string"
  getNormalizedAbsolutePath :: "string \<Rightarrow> string"
  rootDir :: "string option"
  hostMaxNumberOfFilesToIterateForInvalidation :: "int option"
  resolveModuleName :: loader
  resolveTypeReferenceDirective :: loader
  optionsTypes :: bool
  effectiveTypeRoots :: "string list option"

text \<open>\<^verbatim>\<open>const rootPath = rootDir && resolutionHost.toPath(rootDir)\<close>\<close>

definition rootPath :: "ResolutionCacheHost \<Rightarrow> path option" where
  "rootPath h =
     (case rootDir h of None \<Rightarrow> None | Some d \<Rightarrow> if d = [] then Some [] else Some (toPath h d))"

definition maxNumberOfFilesToIterateForInvalidation :: int where
  "maxNumberOfFilesToIterateForInvalidation = 256"

record ResolutionCache =
  filesWithChangedSetOfUnresolvedImports :: "path list option"
  filesWithInvalidatedResolutions :: "path list option"
  allFilesHaveInvalidatedResolution :: bool
  resolvedModuleNames :: "(path \<times> (string \<times> ref) list) list"
  perDirectoryResolvedModuleNames :: "(path \<times> (string \<times> ref) list) list"
  resolvedTypeReferenceDirectives :: "(path \<times> (string \<times> ref) list) list"
  perDirectoryResolvedTypeReferenceDirectives :: "(path \<times> (string \<times> ref) list) list"
  customFailedLookupPaths :: "(path \<times> int) list"
  directoryWatchesOfFailedLookups :: "(path \<times> DirectoryWatchesOfFailedLookup) list"
  typeRootsWatches :: "(path \<times> string) list"
  heap :: "ref \<Rightarrow> resolution"
  nextRef :: ref
  hostLog :: "host_event list"

section \<open>Watch placement\<close>

text \<open>
  The loop \<^verbatim>\<open>while (!isNodeModulesDirectory(dirPath)) { dir = getDirectoryPath(dir); dirPath =
  getDirectoryPath(dirPath); }\<close> has no other exit.
\<close>

partial_function (option) walkToNodeModules ::
    "(string \<Rightarrow> string) \<Rightarrow> string \<Rightarrow> path \<Rightarrow> (string \<times> path) option" where
  "walkToNodeModules gdp d dirPath =
     (if isNodeModulesDirectory dirPath then Some (d, dirPath)
      else walkToNodeModules gdp (gdp d) (gdp dirPath))"

text \<open>
  The loop \<^verbatim>\<open>while (!isInDirectoryPath(dirPath, rootPath))\<close>, which breaks when the parent of
  \<^verbatim>\<open>dirPath\<close> is \<^verbatim>\<open>dirPath\<close> itself.
\<close>

partial_function (option) walkToAncestorOfRoot ::
    "(string \<Rightarrow> string) \<Rightarrow> path \<Rightarrow> string \<Rightarrow> path \<Rightarrow> (string \<times> path) option" where
  "walkToAncestorOfRoot gdp root d dirPath =
     (if isInDirectoryPath (Some dirPath) root then Some (d, dirPath)
      else let parentPath = gdp dirPath in
        if parentPath = dirPath then Some (d, dirPath)
        else walkToAncestorOfRoot gdp root (gdp d) parentPath)"

declare walkToNodeModules.simps [code]
declare walkToAncestorOfRoot.simps [code]

definition getDirectoryToWatchFailedLookupLocation ::
    "ResolutionCacheHost \<Rightarrow> string \<Rightarrow> path \<Rightarrow> (string \<times> path) option" where
  "getDirectoryToWatchFailedLookupLocation h failedLookupLocation failedLookupLocationPath =
     (if isInDirectoryPath (rootPath h) failedLookupLocationPath
      then Some (the (rootDir h), the (rootPath h))
      else
        let d = getDirectoryPath h (getNormalizedAbsolutePath h failedLookupLocation);
            dirPath = getDirectoryPath h failedLookupLocationPath
        in if isNodeModulesDirectory dirPath then Some (d, dirPath)
           else if containsString dirPath ''/node_modules/''
           then walkToNodeModules (getDirectoryPath h) d dirPath
           else (case rootPath h of
                   None \<Rightarrow> Some (d, dirPath)
                 | Some root \<Rightarrow> walkToAncestorOfRoot (getDirectoryPath h) root d dirPath))"

section \<open>The two caches, selected by the kind of name\<close>

text \<open>
  \<^verbatim>\<open>resolveNamesWithLocalCache\<close> and \<^verbatim>\<open>invalidateResolutionCache\<close> receive the per-file map,
  the per-directory map, the loader and the accessor of the resolved result as arguments; the
  callers pass those of module names or those of type reference directives.
\<close>

datatype kind = ModuleNames | TypeReferenceDirectives

definition cacheOf :: "kind \<Rightarrow> ResolutionCache \<Rightarrow> (path \<times> (string \<times> ref) list) list" where
  "cacheOf k s =
     (case k of ModuleNames \<Rightarrow> resolvedModuleNames s
      | TypeReferenceDirectives \<Rightarrow> resolvedTypeReferenceDirectives s)"

definition setCache ::
    "kind \<Rightarrow> (path \<times> (string \<times> ref) list) list \<Rightarrow> ResolutionCache \<Rightarrow> ResolutionCache" where
  "setCache k c s =
     (case k of ModuleNames \<Rightarrow> s\<lparr>resolvedModuleNames := c\<rparr>
      | TypeReferenceDirectives \<Rightarrow> s\<lparr>resolvedTypeReferenceDirectives := c\<rparr>)"

definition perDirectoryCacheOf ::
    "kind \<Rightarrow> ResolutionCache \<Rightarrow> (path \<times> (string \<times> ref) list) list" where
  "perDirectoryCacheOf k s =
     (case k of ModuleNames \<Rightarrow> perDirectoryResolvedModuleNames s
      | TypeReferenceDirectives \<Rightarrow> perDirectoryResolvedTypeReferenceDirectives s)"

definition setPerDirectoryCache ::
    "kind \<Rightarrow> (path \<times> (string \<times> ref) list) list \<Rightarrow> ResolutionCache \<Rightarrow> ResolutionCache" where
  "setPerDirectoryCache k c s =
     (case k of ModuleNames \<Rightarrow> s\<lparr>perDirectoryResolvedModuleNames := c\<rparr>
      | TypeReferenceDirectives \<Rightarrow> s\<lparr>perDirectoryResolvedTypeReferenceDirectives := c\<rparr>)"

text \<open>
  The inner map of a containing file (\<^verbatim>\<open>cache.get(path)\<close>) or of a directory
  (\<^verbatim>\<open>perDirectoryCache.get(dirPath)\<close>). The inner maps are objects that are updated in place;
  here an update writes the map back under its key.
\<close>

definition resolutionsOfFile :: "kind \<Rightarrow> path \<Rightarrow> ResolutionCache \<Rightarrow> (string \<times> ref) list" where
  "resolutionsOfFile k filePath s =
     (case map_of (cacheOf k s) filePath of None \<Rightarrow> [] | Some m \<Rightarrow> m)"

definition setResolutionsOfFile ::
    "kind \<Rightarrow> path \<Rightarrow> (string \<times> ref) list \<Rightarrow> ResolutionCache \<Rightarrow> ResolutionCache" where
  "setResolutionsOfFile k filePath m s = setCache k (AList.update filePath m (cacheOf k s)) s"

definition resolutionsOfDirectory :: "kind \<Rightarrow> path \<Rightarrow> ResolutionCache \<Rightarrow> (string \<times> ref) list" where
  "resolutionsOfDirectory k dirPath s =
     (case map_of (perDirectoryCacheOf k s) dirPath of None \<Rightarrow> [] | Some m \<Rightarrow> m)"

definition setResolutionsOfDirectory ::
    "kind \<Rightarrow> path \<Rightarrow> (string \<times> ref) list \<Rightarrow> ResolutionCache \<Rightarrow> ResolutionCache" where
  "setResolutionsOfDirectory k dirPath m s =
     setPerDirectoryCache k (AList.update dirPath m (perDirectoryCacheOf k s)) s"

definition loaderOf :: "ResolutionCacheHost \<Rightarrow> kind \<Rightarrow> loader" where
  "loaderOf h k =
     (case k of ModuleNames \<Rightarrow> resolveModuleName h
      | TypeReferenceDirectives \<Rightarrow> resolveTypeReferenceDirective h)"

text \<open>\<^verbatim>\<open>getResolvedModule\<close> and \<^verbatim>\<open>getResolvedTypeReferenceDirective\<close>\<close>

definition getResolutionWithResolvedFileName ::
    "kind \<Rightarrow> resolution \<Rightarrow> ResolutionWithResolvedFileName option" where
  "getResolutionWithResolvedFileName k r = resolvedResult r"

section \<open>Watching and releasing failed lookup locations\<close>

text \<open>One iteration of the loop of \<^verbatim>\<open>watchFailedLookupLocationOfResolution\<close>.\<close>

definition watchFailedLookupLocation ::
    "ResolutionCacheHost \<Rightarrow> string \<Rightarrow> ResolutionCache \<Rightarrow> ResolutionCache result" where
  "watchFailedLookupLocation h failedLookupLocation s =
     (let failedLookupLocationPath = toPath h failedLookupLocation;
          s1 = (if \<not> isPathWithDefaultFailedLookupExtension failedLookupLocationPath
                then (let count = (case map_of (customFailedLookupPaths s) failedLookupLocationPath of
                                     None \<Rightarrow> 0 | Some c \<Rightarrow> c)
                      in s\<lparr>customFailedLookupPaths :=
                             AList.update failedLookupLocationPath (count + 1) (customFailedLookupPaths s)\<rparr>)
                else s)
      in case getDirectoryToWatchFailedLookupLocation h failedLookupLocation failedLookupLocationPath of
           None \<Rightarrow> None
         | Some (d, dirPath) \<Rightarrow>
             (case map_of (directoryWatchesOfFailedLookups s1) dirPath of
                Some dirWatcher \<Rightarrow>
                  Ok (s1\<lparr>directoryWatchesOfFailedLookups :=
                          AList.update dirPath (dirWatcher\<lparr>refCount := refCount dirWatcher + 1\<rparr>)
                            (directoryWatchesOfFailedLookups s1)\<rparr>)
              | None \<Rightarrow>
                  Ok (s1\<lparr>directoryWatchesOfFailedLookups :=
                          AList.update dirPath \<lparr>watcher = d, refCount = 1\<rparr>
                            (directoryWatchesOfFailedLookups s1),
                        hostLog := hostLog s1 @ [WatchDirectoryOfFailedLookupLocation d]\<rparr>)))"

text \<open>
  The functions destructure \<^verbatim>\<open>failedLookupLocations\<close> from the resolution and read its
  \<^verbatim>\<open>length\<close>: on \<^verbatim>\<open>undefined\<close> that read throws.
\<close>

definition watchFailedLookupLocationOfResolution ::
    "ResolutionCacheHost \<Rightarrow> ref \<Rightarrow> nat \<Rightarrow> ResolutionCache \<Rightarrow> ResolutionCache result" where
  "watchFailedLookupLocationOfResolution h r startIndex s =
     (case failedLookupLocations (heap s r) of
        None \<Rightarrow> Throw TypeError
      | Some locations \<Rightarrow> forEachM (watchFailedLookupLocation h) (drop startIndex locations) s)"

text \<open>
  One iteration of the loop of \<^verbatim>\<open>stopWatchFailedLookupLocationOfResolutionFrom\<close>. The entry of
  the directory is kept whatever its count becomes; \<^verbatim>\<open>dirWatcher.refCount--\<close> throws when the
  directory has no entry.
\<close>

definition stopWatchFailedLookupLocation ::
    "ResolutionCacheHost \<Rightarrow> string \<Rightarrow> ResolutionCache \<Rightarrow> ResolutionCache result" where
  "stopWatchFailedLookupLocation h failedLookupLocation s =
     (let failedLookupLocationPath = toPath h failedLookupLocation
      in andThen
           (case map_of (customFailedLookupPaths s) failedLookupLocationPath of
              None \<Rightarrow> Ok s
            | Some count \<Rightarrow>
                if count = 0 then Ok s
                else if count = 1
                then Ok (s\<lparr>customFailedLookupPaths :=
                            AList.delete failedLookupLocationPath (customFailedLookupPaths s)\<rparr>)
                else if 1 < count
                then Ok (s\<lparr>customFailedLookupPaths :=
                            AList.update failedLookupLocationPath (count - 1) (customFailedLookupPaths s)\<rparr>)
                else Throw AssertionFailure)
           (\<lambda>s1. case getDirectoryToWatchFailedLookupLocation h failedLookupLocation
                          failedLookupLocationPath of
                   None \<Rightarrow> None
                 | Some (d, dirPath) \<Rightarrow>
                     (case map_of (directoryWatchesOfFailedLookups s1) dirPath of
                        None \<Rightarrow> Throw TypeError
                      | Some dirWatcher \<Rightarrow>
                          Ok (s1\<lparr>directoryWatchesOfFailedLookups :=
                                  AList.update dirPath (dirWatcher\<lparr>refCount := refCount dirWatcher - 1\<rparr>)
                                    (directoryWatchesOfFailedLookups s1)\<rparr>))))"

definition stopWatchFailedLookupLocationOfResolutionFrom ::
    "ResolutionCacheHost \<Rightarrow> ref \<Rightarrow> nat \<Rightarrow> ResolutionCache \<Rightarrow> ResolutionCache result" where
  "stopWatchFailedLookupLocationOfResolutionFrom h r startIndex s =
     (case failedLookupLocations (heap s r) of
        None \<Rightarrow> Throw TypeError
      | Some locations \<Rightarrow> forEachM (stopWatchFailedLookupLocation h) (drop startIndex locations) s)"

definition stopWatchFailedLookupLocationOfResolution ::
    "ResolutionCacheHost \<Rightarrow> ref \<Rightarrow> ResolutionCache \<Rightarrow> ResolutionCache result" where
  "stopWatchFailedLookupLocationOfResolution h r s =
     (case failedLookupLocations (heap s r) of
        None \<Rightarrow> Ok s
      | Some locations \<Rightarrow> stopWatchFailedLookupLocationOfResolutionFrom h r 0 s)"

text \<open>
  The \<^verbatim>\<open>for\<close> loop of \<^verbatim>\<open>watchAndStopWatchDiffFailedLookupLocations\<close> from \<^verbatim>\<open>index\<close> on, with
  the statement after it. Reading \<^verbatim>\<open>existingFailedLookupLocations[index]\<close> beyond the end
  gives \<^verbatim>\<open>undefined\<close>, which differs from every string.
\<close>

function diffFailedLookupLocations ::
    "ResolutionCacheHost \<Rightarrow> ref \<Rightarrow> ref \<Rightarrow> string list \<Rightarrow> string list \<Rightarrow> nat \<Rightarrow>
     ResolutionCache \<Rightarrow> ResolutionCache result" where
  "diffFailedLookupLocations h r existing locations existingLocations index s =
     (if index < length locations then
        if index = length existingLocations
        then watchFailedLookupLocationOfResolution h r index s
        else if length existingLocations < index \<or> locations ! index \<noteq> existingLocations ! index
        then andThen (watchFailedLookupLocationOfResolution h r index s)
               (stopWatchFailedLookupLocationOfResolutionFrom h existing index)
        else diffFailedLookupLocations h r existing locations existingLocations (Suc index) s
      else stopWatchFailedLookupLocationOfResolutionFrom h existing (length locations) s)"
  by pat_completeness auto
termination
  by (relation "measure (\<lambda>(h, r, existing, locations, existingLocations, index, s). length locations - index)")
     auto

declare diffFailedLookupLocations.simps [simp del]

definition watchAndStopWatchDiffFailedLookupLocations ::
    "ResolutionCacheHost \<Rightarrow> ref \<Rightarrow> ref \<Rightarrow> ResolutionCache \<Rightarrow> ResolutionCache result" where
  "watchAndStopWatchDiffFailedLookupLocations h r existing s =
     (case (failedLookupLocations (heap s r), failedLookupLocations (heap s existing)) of
        (Some locations, Some existingLocations) \<Rightarrow>
          diffFailedLookupLocations h r existing locations existingLocations 0 s
      | _ \<Rightarrow> Throw TypeError)"

section \<open>Removing and invalidating resolutions\<close>

definition removeResolutionsOfFileFromCache ::
    "ResolutionCacheHost \<Rightarrow> kind \<Rightarrow> path \<Rightarrow> ResolutionCache \<Rightarrow> ResolutionCache result" where
  "removeResolutionsOfFileFromCache h k filePath s =
     (case map_of (cacheOf k s) filePath of
        None \<Rightarrow> Ok s
      | Some resolutions \<Rightarrow>
          andThen
            (forEachM (\<lambda>(name, r). stopWatchFailedLookupLocationOfResolution h r) resolutions s)
            (\<lambda>s1. Ok (setCache k (AList.delete filePath (cacheOf k s1)) s1)))"

definition removeResolutionsOfFile ::
    "ResolutionCacheHost \<Rightarrow> path \<Rightarrow> ResolutionCache \<Rightarrow> ResolutionCache result" where
  "removeResolutionsOfFile h filePath s =
     andThen (removeResolutionsOfFileFromCache h ModuleNames filePath s)
       (removeResolutionsOfFileFromCache h TypeReferenceDirectives filePath)"

text \<open>
  The callback of the inner \<^verbatim>\<open>forEach\<close> of \<^verbatim>\<open>invalidateResolutionCache\<close>. \<open>seen\<close> holds the
  pairs of directory and name that \<^verbatim>\<open>seen.get(dirPath).has(name)\<close> answers for.
\<close>

definition invalidateResolutionEntry ::
    "kind \<Rightarrow> (resolution \<Rightarrow> (resolution \<Rightarrow> ResolutionWithResolvedFileName option) \<Rightarrow> bool) \<Rightarrow>
     path \<Rightarrow> path \<Rightarrow> string \<times> ref \<Rightarrow> (path \<times> string) list \<times> ResolutionCache \<Rightarrow>
     (path \<times> string) list \<times> ResolutionCache" where
  "invalidateResolutionEntry k isInvalidatedResolution containingFilePath dirPath entry acc =
     (case (entry, acc) of
        ((name, r), (seen, s)) \<Rightarrow>
          if (dirPath, name) \<in> set seen then (seen, s)
          else if \<not> isInvalidated (heap s r)
                  \<and> isInvalidatedResolution (heap s r) (getResolutionWithResolvedFileName k)
          then ((dirPath, name) # seen,
                s\<lparr>heap := (heap s)(r := (heap s r)\<lparr>isInvalidated := True\<rparr>),
                  filesWithInvalidatedResolutions :=
                    Some (List.insert containingFilePath
                            (case filesWithInvalidatedResolutions s of None \<Rightarrow> [] | Some fs \<Rightarrow> fs))\<rparr>)
          else ((dirPath, name) # seen, s))"

definition invalidateResolutionsOfContainingFile ::
    "ResolutionCacheHost \<Rightarrow> kind \<Rightarrow>
     (resolution \<Rightarrow> (resolution \<Rightarrow> ResolutionWithResolvedFileName option) \<Rightarrow> bool) \<Rightarrow>
     path \<times> (string \<times> ref) list \<Rightarrow> (path \<times> string) list \<times> ResolutionCache \<Rightarrow>
     (path \<times> string) list \<times> ResolutionCache" where
  "invalidateResolutionsOfContainingFile h k isInvalidatedResolution fileEntry acc =
     (case fileEntry of
        (containingFilePath, resolutions) \<Rightarrow>
          fold (invalidateResolutionEntry k isInvalidatedResolution containingFilePath
                  (getDirectoryPath h containingFilePath)) resolutions acc)"

definition invalidateResolutionCache ::
    "ResolutionCacheHost \<Rightarrow> kind \<Rightarrow>
     (resolution \<Rightarrow> (resolution \<Rightarrow> ResolutionWithResolvedFileName option) \<Rightarrow> bool) \<Rightarrow>
     ResolutionCache \<Rightarrow> ResolutionCache" where
  "invalidateResolutionCache h k isInvalidatedResolution s =
     snd (fold (invalidateResolutionsOfContainingFile h k isInvalidatedResolution) (cacheOf k s) ([], s))"

text \<open>
  \<^verbatim>\<open>resolutionHost.maxNumberOfFilesToIterateForInvalidation || maxNumberOfFilesToIterateForInvalidation\<close>:
  an absent or zero value of the host gives the default.
\<close>

definition hasReachedResolutionIterationLimit :: "ResolutionCacheHost \<Rightarrow> ResolutionCache \<Rightarrow> bool" where
  "hasReachedResolutionIterationLimit h s =
     (let maxSize = (case hostMaxNumberOfFilesToIterateForInvalidation h of
                       None \<Rightarrow> maxNumberOfFilesToIterateForInvalidation
                     | Some n \<Rightarrow> if n = 0 then maxNumberOfFilesToIterateForInvalidation else n)
      in maxSize < int (length (resolvedModuleNames s))
         \<or> maxSize < int (length (resolvedTypeReferenceDirectives s)))"

definition invalidateResolutions ::
    "ResolutionCacheHost \<Rightarrow>
     (resolution \<Rightarrow> (resolution \<Rightarrow> ResolutionWithResolvedFileName option) \<Rightarrow> bool) \<Rightarrow>
     ResolutionCache \<Rightarrow> ResolutionCache" where
  "invalidateResolutions h isInvalidatedResolution s =
     (if hasReachedResolutionIterationLimit h s
      then s\<lparr>allFilesHaveInvalidatedResolution := True\<rparr>
      else invalidateResolutionCache h TypeReferenceDirectives isInvalidatedResolution
             (invalidateResolutionCache h ModuleNames isInvalidatedResolution s))"

text \<open>
  The predicate that \<^verbatim>\<open>invalidateResolutionOfFile\<close> passes:
  \<^verbatim>\<open>result && resolutionHost.toPath(result.resolvedFileName) === filePath\<close>.
\<close>

definition resolvesToFile ::
    "ResolutionCacheHost \<Rightarrow> path \<Rightarrow> resolution \<Rightarrow>
     (resolution \<Rightarrow> ResolutionWithResolvedFileName option) \<Rightarrow> bool" where
  "resolvesToFile h filePath res getResolution =
     (case getResolution res of
        None \<Rightarrow> False
      | Some result \<Rightarrow>
          (case resolvedFileName result of
             None \<Rightarrow> toPathUndefined h = filePath
           | Some fileName \<Rightarrow> toPath h fileName = filePath))"

definition invalidateResolutionOfFile ::
    "ResolutionCacheHost \<Rightarrow> path \<Rightarrow> ResolutionCache \<Rightarrow> ResolutionCache result" where
  "invalidateResolutionOfFile h filePath s =
     andThen (removeResolutionsOfFile h filePath s)
       (\<lambda>s1. Ok (invalidateResolutions h (resolvesToFile h filePath) s1))"

text \<open>
  \<^verbatim>\<open>invalidateResolutionOfFailedLookupLocation\<close>; \<^verbatim>\<open>some\<close> of an \<^verbatim>\<open>undefined\<close> array is false, and
  the value returned is used as a condition.
\<close>

definition invalidateResolutionOfFailedLookupLocation ::
    "ResolutionCacheHost \<Rightarrow> path \<Rightarrow> bool \<Rightarrow> ResolutionCache \<Rightarrow> bool \<times> ResolutionCache" where
  "invalidateResolutionOfFailedLookupLocation h fileOrDirectoryPath isCreatingWatchedDirectory s =
     (if \<not> isCreatingWatchedDirectory
         \<and> \<not> isPathWithDefaultFailedLookupExtension fileOrDirectoryPath
         \<and> map_of (customFailedLookupPaths s) fileOrDirectoryPath = None
      then (False, s)
      else
        let isChangedFailedLookupLocation =
              (if isCreatingWatchedDirectory
               then (\<lambda>location. isInDirectoryPath (Some fileOrDirectoryPath) (toPath h location))
               else (\<lambda>location. toPath h location = fileOrDirectoryPath));
            hasChangedFailedLookupLocation =
              (\<lambda>res getResolution.
                 case failedLookupLocations res of
                   None \<Rightarrow> False
                 | Some locations \<Rightarrow> list_ex isChangedFailedLookupLocation locations);
            invalidatedFilesCount = map_option length (filesWithInvalidatedResolutions s);
            s1 = invalidateResolutions h hasChangedFailedLookupLocation s
        in (allFilesHaveInvalidatedResolution s1
            \<or> (case filesWithInvalidatedResolutions s1 of
                  None \<Rightarrow> False
                | Some fs \<Rightarrow> Some (length fs) \<noteq> invalidatedFilesCount),
            s1))"


section \<open>Brackets of a pass\<close>

definition startRecordingFilesWithChangedResolutions :: "ResolutionCache \<Rightarrow> ResolutionCache" where
  "startRecordingFilesWithChangedResolutions s = s\<lparr>filesWithChangedSetOfUnresolvedImports := Some []\<rparr>"

definition finishRecordingFilesWithChangedResolutions ::
    "ResolutionCache \<Rightarrow> path list option \<times> ResolutionCache" where
  "finishRecordingFilesWithChangedResolutions s =
     (filesWithChangedSetOfUnresolvedImports s, s\<lparr>filesWithChangedSetOfUnresolvedImports := None\<rparr>)"

text \<open>
  \<^verbatim>\<open>createHasInvalidatedResolution\<close>: \<^verbatim>\<open>returnTrue\<close>, or membership in the collected set (a
  missing set answers \<^verbatim>\<open>undefined\<close>, which is falsy).
\<close>

definition createHasInvalidatedResolution ::
    "ResolutionCache \<Rightarrow> (path \<Rightarrow> bool) \<times> ResolutionCache" where
  "createHasInvalidatedResolution s =
     (if allFilesHaveInvalidatedResolution s
      then (\<lambda>p. True, s\<lparr>filesWithInvalidatedResolutions := None\<rparr>)
      else (let collected = filesWithInvalidatedResolutions s
            in (\<lambda>p. case collected of None \<Rightarrow> False | Some fs \<Rightarrow> p \<in> set fs,
                s\<lparr>filesWithInvalidatedResolutions := None\<rparr>)))"

definition startCachingPerDirectoryResolution :: "ResolutionCache \<Rightarrow> ResolutionCache result" where
  "startCachingPerDirectoryResolution s =
     (if perDirectoryResolvedModuleNames s = [] \<and> perDirectoryResolvedTypeReferenceDirectives s = []
      then Ok s else Throw AssertionFailure)"

definition finishCachingPerDirectoryResolution :: "ResolutionCache \<Rightarrow> ResolutionCache" where
  "finishCachingPerDirectoryResolution s =
     s\<lparr>allFilesHaveInvalidatedResolution := False,
       directoryWatchesOfFailedLookups :=
         filter (\<lambda>(p, w). refCount w \<noteq> 0) (directoryWatchesOfFailedLookups s),
       hostLog := hostLog s
         @ map (\<lambda>(p, w). CloseWatcher (watcher w))
             (filter (\<lambda>(p, w). refCount w = 0) (directoryWatchesOfFailedLookups s)),
       perDirectoryResolvedModuleNames := [],
       perDirectoryResolvedTypeReferenceDirectives := []\<rparr>"

definition closeTypeRootsWatch :: "ResolutionCache \<Rightarrow> ResolutionCache" where
  "closeTypeRootsWatch s =
     s\<lparr>hostLog := hostLog s @ map (\<lambda>(p, w). CloseWatcher w) (typeRootsWatches s),
       typeRootsWatches := []\<rparr>"

definition clear :: "ResolutionCache \<Rightarrow> ResolutionCache result" where
  "clear s =
     (let s1 = s\<lparr>hostLog := hostLog s
                   @ map (\<lambda>(p, w). CloseWatcher (watcher w)) (directoryWatchesOfFailedLookups s),
                 directoryWatchesOfFailedLookups := [],
                 customFailedLookupPaths := []\<rparr>;
          s2 = (closeTypeRootsWatch s1)\<lparr>resolvedModuleNames := [],
                 resolvedTypeReferenceDirectives := [],
                 allFilesHaveInvalidatedResolution := False\<rparr>
      in if perDirectoryResolvedModuleNames s2 = [] \<and> perDirectoryResolvedTypeReferenceDirectives s2 = []
         then Ok s2 else Throw AssertionFailure)"

section \<open>Resolving names with the two caches\<close>

text \<open>
  \<^verbatim>\<open>resolutionIsEqualTo\<close>. The first test is identity of the resolution objects. The test
  \<^verbatim>\<open>oldResult === newResult\<close> is identity of the result objects or both \<^verbatim>\<open>undefined\<close>; two
  identical result objects have the same \<^verbatim>\<open>resolvedFileName\<close>, so for two present results the
  answer is that of the last comparison.
\<close>

definition resolutionIsEqualTo ::
    "(ref \<Rightarrow> resolution) \<Rightarrow> (resolution \<Rightarrow> ResolutionWithResolvedFileName option) \<Rightarrow>
     ref option \<Rightarrow> ref option \<Rightarrow> bool" where
  "resolutionIsEqualTo hp getResolution oldResolution newResolution =
     (if oldResolution = newResolution then True
      else (case (oldResolution, newResolution) of
              (Some old, Some new) \<Rightarrow>
                if isInvalidated (hp old) then False
                else (case (getResolution (hp old), getResolution (hp new)) of
                        (None, None) \<Rightarrow> True
                      | (Some oldResult, Some newResult) \<Rightarrow>
                          resolvedFileName oldResult = resolvedFileName newResult
                      | _ \<Rightarrow> False)
            | _ \<Rightarrow> False))"

text \<open>
  The resolution that the directory holds for the name, or else a fresh one made by the loader
  and stored for the directory.
\<close>

definition resolutionInDirectoryOrLoaded ::
    "ResolutionCacheHost \<Rightarrow> kind \<Rightarrow> string \<Rightarrow> path \<Rightarrow> string \<Rightarrow> ResolutionCache \<Rightarrow>
     ref \<times> ResolutionCache" where
  "resolutionInDirectoryOrLoaded h k containingFile dirPath name s =
     (case map_of (resolutionsOfDirectory k dirPath s) name of
        Some resolutionInDirectory \<Rightarrow> (resolutionInDirectory, s)
      | None \<Rightarrow>
          (case loaderOf h k name containingFile of
             (locations, result) \<Rightarrow>
               (nextRef s,
                setResolutionsOfDirectory k dirPath
                  (AList.update name (nextRef s) (resolutionsOfDirectory k dirPath s))
                  (s\<lparr>heap := (heap s)(nextRef s :=
                           \<lparr>failedLookupLocations = locations, resolvedResult = result,
                            isInvalidated = False\<rparr>),
                      nextRef := Suc (nextRef s)\<rparr>))))"

text \<open>
  The watches of the failed lookup locations of the resolution now used are taken and those
  of the resolution used before are released.
\<close>

definition watchNewAndStopWatchExisting ::
    "ResolutionCacheHost \<Rightarrow> ref \<Rightarrow> ref option \<Rightarrow> ResolutionCache \<Rightarrow> ResolutionCache result" where
  "watchNewAndStopWatchExisting h r existingResolution s =
     (if failedLookupLocations (heap s r) \<noteq> None then
        (case existingResolution of
           Some existing \<Rightarrow>
             if failedLookupLocations (heap s existing) \<noteq> None
             then watchAndStopWatchDiffFailedLookupLocations h r existing s
             else watchFailedLookupLocationOfResolution h r 0 s
         | None \<Rightarrow> watchFailedLookupLocationOfResolution h r 0 s)
      else (case existingResolution of
              Some existing \<Rightarrow> stopWatchFailedLookupLocationOfResolution h existing s
            | None \<Rightarrow> Ok s))"

text \<open>
  The part of the loop body that runs when the cached resolution of the name cannot be used:
  take the resolution of the directory or load one, store it for the file, move the watches
  and record the change. It yields the cache, \<^verbatim>\<open>logChanges\<close> and the resolution.
\<close>

definition resolveNameAnew ::
    "ResolutionCacheHost \<Rightarrow> kind \<Rightarrow> string \<Rightarrow> path \<Rightarrow> path \<Rightarrow> string \<Rightarrow> ref option \<Rightarrow> bool \<Rightarrow>
     ResolutionCache \<Rightarrow> (ResolutionCache \<times> bool \<times> ref option) result" where
  "resolveNameAnew h k containingFile filePath dirPath name existingResolution logChanges s =
     (case resolutionInDirectoryOrLoaded h k containingFile dirPath name s of
        (r, s1) \<Rightarrow>
          andThen
            (watchNewAndStopWatchExisting h r existingResolution
               (setResolutionsOfFile k filePath
                  (AList.update name r (resolutionsOfFile k filePath s1)) s1))
            (\<lambda>s3. if logChanges \<and> filesWithChangedSetOfUnresolvedImports s3 \<noteq> None
                      \<and> \<not> resolutionIsEqualTo (heap s3) (getResolutionWithResolvedFileName k)
                            existingResolution (Some r)
                   then Ok (s3\<lparr>filesWithChangedSetOfUnresolvedImports :=
                                Some (the (filesWithChangedSetOfUnresolvedImports s3) @ [filePath])\<rparr>,
                            False, Some r)
                   else Ok (s3, logChanges, Some r)))"

text \<open>
  The body of \<^verbatim>\<open>for (const name of names)\<close>. The loop state is the cache, \<^verbatim>\<open>seenNamesInFile\<close>,
  \<^verbatim>\<open>logChanges\<close> and \<^verbatim>\<open>resolvedModules\<close>. In the condition, \<^verbatim>\<open>&&\<close> binds tighter than \<^verbatim>\<open>||\<close>.
\<close>

definition resolveName ::
    "ResolutionCacheHost \<Rightarrow> kind \<Rightarrow> string \<Rightarrow> path \<Rightarrow> path \<Rightarrow> string \<Rightarrow>
     ResolutionCache \<times> string list \<times> bool \<times> ResolutionWithResolvedFileName option list \<Rightarrow>
     (ResolutionCache \<times> string list \<times> bool \<times> ResolutionWithResolvedFileName option list) result" where
  "resolveName h k containingFile filePath dirPath name st =
     (case st of
        (s, seenNamesInFile, logChanges, resolvedModules) \<Rightarrow>
          let res = map_of (resolutionsOfFile k filePath s) name
          in andThen
               (if (name \<notin> set seenNamesInFile \<and> allFilesHaveInvalidatedResolution s)
                   \<or> res = None \<or> isInvalidated (heap s (the res))
                then resolveNameAnew h k containingFile filePath dirPath name res logChanges s
                else Ok (s, logChanges, res))
               (\<lambda>(s1, logChanges1, res1).
                  case res1 of
                    None \<Rightarrow> Throw AssertionFailure
                  | Some r \<Rightarrow>
                      if isInvalidated (heap s1 r) then Throw AssertionFailure
                      else Ok (s1, seenNamesInFile @ [name], logChanges1,
                               resolvedModules @ [getResolutionWithResolvedFileName k (heap s1 r)])))"

text \<open>
  The callback of the closing \<^verbatim>\<open>resolutionsInFile.forEach\<close>: a name that was not requested
  and is not reused is released and deleted. \<^verbatim>\<open>contains(undefined, name)\<close> is false.
\<close>

definition removeUnusedName ::
    "ResolutionCacheHost \<Rightarrow> kind \<Rightarrow> path \<Rightarrow> string list \<Rightarrow> string list option \<Rightarrow> string \<times> ref \<Rightarrow>
     ResolutionCache \<Rightarrow> ResolutionCache result" where
  "removeUnusedName h k filePath seenNamesInFile reusedNames entry s =
     (case entry of
        (name, r) \<Rightarrow>
          if name \<notin> set seenNamesInFile
             \<and> name \<notin> (case reusedNames of None \<Rightarrow> {} | Some names \<Rightarrow> set names)
          then andThen (stopWatchFailedLookupLocationOfResolution h r s)
                 (\<lambda>s1. Ok (setResolutionsOfFile k filePath
                              (AList.delete name (resolutionsOfFile k filePath s1)) s1))
          else Ok s)"

definition resolveNamesWithLocalCache ::
    "ResolutionCacheHost \<Rightarrow> kind \<Rightarrow> string list \<Rightarrow> string \<Rightarrow> string list option \<Rightarrow> bool \<Rightarrow>
     ResolutionCache \<Rightarrow> (ResolutionWithResolvedFileName option list \<times> ResolutionCache) result" where
  "resolveNamesWithLocalCache h k names containingFile reusedNames logChanges s =
     (let filePath = toPath h containingFile;
          s1 = (case map_of (cacheOf k s) filePath of
                  Some m \<Rightarrow> s
                | None \<Rightarrow> setResolutionsOfFile k filePath [] s);
          dirPath = getDirectoryPath h filePath;
          s2 = (case map_of (perDirectoryCacheOf k s1) dirPath of
                  Some m \<Rightarrow> s1
                | None \<Rightarrow> setResolutionsOfDirectory k dirPath [] s1)
      in andThen
           (forEachM (resolveName h k containingFile filePath dirPath) names (s2, [], logChanges, []))
           (\<lambda>(s3, seenNamesInFile, logChanges3, resolvedModules).
              andThen
                (forEachM (removeUnusedName h k filePath seenNamesInFile reusedNames)
                   (resolutionsOfFile k filePath s3) s3)
                (\<lambda>s4. Ok (resolvedModules, s4))))"

definition resolveTypeReferenceDirectives ::
    "ResolutionCacheHost \<Rightarrow> string list \<Rightarrow> string \<Rightarrow> ResolutionCache \<Rightarrow>
     (ResolutionWithResolvedFileName option list \<times> ResolutionCache) result" where
  "resolveTypeReferenceDirectives h typeDirectiveNames containingFile s =
     resolveNamesWithLocalCache h TypeReferenceDirectives typeDirectiveNames containingFile None False s"

definition resolveModuleNames ::
    "ResolutionCacheHost \<Rightarrow> string list \<Rightarrow> string \<Rightarrow> string list option \<Rightarrow> bool \<Rightarrow> ResolutionCache \<Rightarrow>
     (ResolutionWithResolvedFileName option list \<times> ResolutionCache) result" where
  "resolveModuleNames h moduleNames containingFile reusedNames logChanges s =
     resolveNamesWithLocalCache h ModuleNames moduleNames containingFile reusedNames logChanges s"

section \<open>The project (project.ts)\<close>

record SourceFile =
  sourceFilePath :: path
  sourceFileName :: string
  resolvedModules :: "(string \<times> bool) list option"

record Program =
  sourceFiles :: "SourceFile list"
  missingFilePaths :: "path list"
  configFile :: "(string \<times> string list option) option"

datatype project_event =
    FileExistsOnHost string
  | WatchMissingFile path
  | CloseMissingFileWatcher path
  | DetachFromProject path
  | AttachToProject string
  | DelayUpdateProjectGraph

record ScriptInfo =
  infoPath :: path
  infoFileName :: string

record Project =
  program :: "Program option"
  rootFiles :: "ScriptInfo list"
  externalFiles :: "string list option"
  missingFilesMap :: "(path \<times> path) list option"
  cachedUnresolvedImportsPerFile :: "(path \<times> string list) list"
  cachedUnresolvedImportsVersion :: int
  lastCachedUnresolvedImportsList :: "string list option"
  languageServiceEnabled :: bool
  hasInvalidatedResolution :: "path \<Rightarrow> bool"
  resolutionCache :: ResolutionCache
  updatedFileNames :: "string list option"
  lastReportedFileNames :: "string list option"
  lastReportedVersion :: int
  projectStructureVersion :: int
  projectStateVersion :: int
  hasChangedAutomaticTypeDirectiveNames :: bool
  typingFiles :: "string list option"
  projectLog :: "project_event list"

text \<open>
  The program builder behind \<^verbatim>\<open>languageService.getProgram()\<close> is outside these sources. One
  run of it is the list of calls it makes on the project as its host, and what it hands back:
  the program object it was given before, or a new program together with whether
  \<^verbatim>\<open>oldProgram.structureIsReused\<close> has the bit \<^verbatim>\<open>StructureIsReused.Completely\<close>.
\<close>

datatype host_call =
    ResolveModuleNames "string list" string "string list option"
  | ResolveTypeReferenceDirectives "string list" string
  | FileExists string

datatype builder_result = SameProgram | NewProgram Program bool

datatype Comparison = LessThan | EqualTo | GreaterThan

record ProjectHost =
  cacheHost :: ResolutionCacheHost
  directoryStructureHostFileExists :: "string \<Rightarrow> bool"
  getProgram :: "Project \<Rightarrow> host_call list \<times> builder_result"
  getScriptInfo :: "string \<Rightarrow> path option"
  getTypingsForProject :: "Project \<Rightarrow> string list option \<Rightarrow> bool \<Rightarrow> string list option"
  getExternalFiles :: "string list"
  getGlobalProjectErrors :: "string list"
  getDefaultLibFilePath :: "string option"
  toNormalizedPath :: "string \<Rightarrow> string"
  isExternalModuleNameRelative :: "string \<Rightarrow> bool"
  trim :: "string \<Rightarrow> string"
  compareValues :: "string \<Rightarrow> string \<Rightarrow> Comparison"
  toDeduplicatedSortedArray :: "string list \<Rightarrow> string list"
  projectName :: string
  isInferred :: bool

subsection \<open>The project as host of the builder\<close>

definition isWatchedMissingFile :: "Project \<Rightarrow> path \<Rightarrow> bool" where
  "isWatchedMissingFile p filePath =
     (case missingFilesMap p of None \<Rightarrow> False | Some m \<Rightarrow> map_of m filePath \<noteq> None)"

text \<open>
  \<^verbatim>\<open>!this.isWatchedMissingFile(path) && this.directoryStructureHost.fileExists(file)\<close>: the host
  is asked only when the left operand is true; each question is written to the log.
\<close>

definition fileExists :: "ProjectHost \<Rightarrow> string \<Rightarrow> Project \<Rightarrow> bool \<times> Project" where
  "fileExists ph file p =
     (let filePath = toPath (cacheHost ph) file
      in if \<not> isWatchedMissingFile p filePath
         then (directoryStructureHostFileExists ph file,
               p\<lparr>projectLog := projectLog p @ [FileExistsOnHost file]\<rparr>)
         else (False, p))"

text \<open>
  The callback that \<^verbatim>\<open>addMissingFileWatcher(missingFilePath)\<close> registers; \<open>created\<close> is
  \<^verbatim>\<open>eventKind === FileWatcherEventKind.Created\<close>. The update of a configured project's cached
  directory structure is outside the project. \<^verbatim>\<open>this.missingFilesMap.has\<close> throws when the
  map is \<^verbatim>\<open>undefined\<close>.
\<close>

definition missingFileWatcherCallback :: "path \<Rightarrow> bool \<Rightarrow> Project \<Rightarrow> Project result" where
  "missingFileWatcherCallback missingFilePath created p =
     (if created then
        (case missingFilesMap p of
           None \<Rightarrow> Throw TypeError
         | Some m \<Rightarrow>
             if map_of m missingFilePath \<noteq> None
             then Ok (p\<lparr>missingFilesMap := Some (AList.delete missingFilePath m),
                        projectLog := projectLog p
                          @ [CloseMissingFileWatcher missingFilePath, DelayUpdateProjectGraph]\<rparr>)
             else Ok p)
      else Ok p)"

definition projectResolveModuleNames ::
    "ProjectHost \<Rightarrow> string list \<Rightarrow> string \<Rightarrow> string list option \<Rightarrow> Project \<Rightarrow>
     (ResolutionWithResolvedFileName option list \<times> Project) result" where
  "projectResolveModuleNames ph moduleNames containingFile reusedNames p =
     andThen (resolveModuleNames (cacheHost ph) moduleNames containingFile reusedNames True
                (resolutionCache p))
       (\<lambda>(rs, s). Ok (rs, p\<lparr>resolutionCache := s\<rparr>))"

definition projectResolveTypeReferenceDirectives ::
    "ProjectHost \<Rightarrow> string list \<Rightarrow> string \<Rightarrow> Project \<Rightarrow>
     (ResolutionWithResolvedFileName option list \<times> Project) result" where
  "projectResolveTypeReferenceDirectives ph typeDirectiveNames containingFile p =
     andThen (resolveTypeReferenceDirectives (cacheHost ph) typeDirectiveNames containingFile
                (resolutionCache p))
       (\<lambda>(rs, s). Ok (rs, p\<lparr>resolutionCache := s\<rparr>))"

definition hostCall :: "ProjectHost \<Rightarrow> host_call \<Rightarrow> Project \<Rightarrow> Project result" where
  "hostCall ph c p =
     (case c of
        ResolveModuleNames moduleNames containingFile reusedNames \<Rightarrow>
          andThen (projectResolveModuleNames ph moduleNames containingFile reusedNames p)
            (\<lambda>(rs, p1). Ok p1)
      | ResolveTypeReferenceDirectives typeDirectiveNames containingFile \<Rightarrow>
          andThen (projectResolveTypeReferenceDirectives ph typeDirectiveNames containingFile p)
            (\<lambda>(rs, p1). Ok p1)
      | FileExists file \<Rightarrow> Ok (snd (fileExists ph file p)))"

subsection \<open>Versions and file lists\<close>

definition markAsDirty :: "Project \<Rightarrow> Project" where
  "markAsDirty p = p\<lparr>projectStateVersion := projectStateVersion p + 1\<rparr>"

text \<open>\<^verbatim>\<open>arrayToSet\<close> and \<^verbatim>\<open>Map.set(key, true)\<close>: the keys, each once, in the order of insertion.\<close>

definition setAdd :: "string \<Rightarrow> string list \<Rightarrow> string list" where
  "setAdd x xs = (if x \<in> set xs then xs else xs @ [x])"

definition arrayToSet :: "string list \<Rightarrow> string list" where
  "arrayToSet xs = foldl (\<lambda>acc x. setAdd x acc) [] xs"


text \<open>\<^verbatim>\<open>getFileNames()\<close> as \<^verbatim>\<open>getChangesSinceVersion\<close> calls it, without arguments.\<close>

definition getFileNames :: "ProjectHost \<Rightarrow> Project \<Rightarrow> string list" where
  "getFileNames ph p =
     (case program p of
        None \<Rightarrow> []
      | Some prog \<Rightarrow>
          if \<not> languageServiceEnabled p
          then (case getDefaultLibFilePath ph of
                  None \<Rightarrow> map infoFileName (rootFiles p)
                | Some defaultLibrary \<Rightarrow>
                    if defaultLibrary = [] then map infoFileName (rootFiles p)
                    else map infoFileName (rootFiles p) @ [defaultLibrary])
          else map sourceFileName (sourceFiles prog)
               @ (case configFile prog of
                    None \<Rightarrow> []
                  | Some (fileName, extendedSourceFiles) \<Rightarrow>
                      fileName # (case extendedSourceFiles of None \<Rightarrow> [] | Some fs \<Rightarrow> fs)))"

subsection \<open>Reconciling watches and external files\<close>

text \<open>
  Modelled from the spec: \<^verbatim>\<open>mutateMap\<close> of core.ts is not among the sources. For the type
  roots the spec says to "maintain directory watches over the effective type-roots list",
  for missing files to "watch referenced-but-absent paths": an entry whose key is no longer
  wanted is deleted and its watcher closed, then every wanted key without an entry gets a new
  value. The result is the new map, the deleted entries and the created ones.
\<close>

definition mutateMap ::
    "(path \<times> 'v) list \<Rightarrow> (path \<times> 'u) list \<Rightarrow> (path \<Rightarrow> 'u \<Rightarrow> 'v) \<Rightarrow>
     (path \<times> 'v) list \<times> (path \<times> 'v) list \<times> (path \<times> 'v) list" where
  "mutateMap m newMap createNewValue =
     (let kept = filter (\<lambda>(key, v). map_of newMap key \<noteq> None) m;
          deleted = filter (\<lambda>(key, v). map_of newMap key = None) m;
          created = map (\<lambda>(key, u). (key, createNewValue key u))
                      (filter (\<lambda>(key, u). map_of kept key = None) newMap)
      in (kept @ created, deleted, created))"

text \<open>\<^verbatim>\<open>arrayToMap(array, makeKey)\<close>: a later element replaces an earlier one with its key.\<close>

definition arrayToMap :: "string list \<Rightarrow> (string \<Rightarrow> path) \<Rightarrow> (path \<times> string) list" where
  "arrayToMap xs makeKey = foldl (\<lambda>m x. AList.update (makeKey x) x m) [] xs"

definition updateTypeRootsWatch :: "ResolutionCacheHost \<Rightarrow> ResolutionCache \<Rightarrow> ResolutionCache" where
  "updateTypeRootsWatch h s =
     (if optionsTypes h then closeTypeRootsWatch s
      else (case effectiveTypeRoots h of
              None \<Rightarrow> closeTypeRootsWatch s
            | Some typeRoots \<Rightarrow>
                (case mutateMap (typeRootsWatches s) (arrayToMap typeRoots (toPath h))
                        (\<lambda>typeRootPath typeRoot. typeRoot) of
                   (m, deleted, created) \<Rightarrow>
                     s\<lparr>typeRootsWatches := m,
                       hostLog := hostLog s @ map (\<lambda>(key, w). CloseWatcher w) deleted
                                    @ map (\<lambda>(key, w). WatchTypeRootsDirectory w) created\<rparr>)))"

text \<open>
  Modelled from the spec: \<^verbatim>\<open>updateMissingFilePathsWatch\<close> of watchUtilities.ts is not among the
  sources; it "reconciles missing-file watches (watch referenced-but-absent paths ...)". The
  watcher of a path is created by \<^verbatim>\<open>addMissingFileWatcher\<close>.
\<close>

definition updateMissingFilePathsWatch :: "Program \<Rightarrow> Project \<Rightarrow> Project" where
  "updateMissingFilePathsWatch prog p =
     (case mutateMap (case missingFilesMap p of None \<Rightarrow> [] | Some m \<Rightarrow> m)
             (map (\<lambda>f. (f, True)) (arrayToSet (missingFilePaths prog)))
             (\<lambda>missingFilePath b. missingFilePath) of
        (m, deleted, created) \<Rightarrow>
          p\<lparr>missingFilesMap := Some m,
            projectLog := projectLog p @ map (\<lambda>(key, w). CloseMissingFileWatcher w) deleted
                            @ map (\<lambda>(key, w). WatchMissingFile w) created\<rparr>)"

definition detachScriptInfoFromProject :: "ProjectHost \<Rightarrow> string \<Rightarrow> Project \<Rightarrow> Project result" where
  "detachScriptInfoFromProject ph uncheckedFileName p =
     (case getScriptInfo ph uncheckedFileName of
        None \<Rightarrow> Ok p
      | Some scriptInfoPath \<Rightarrow>
          andThen (removeResolutionsOfFile (cacheHost ph) scriptInfoPath (resolutionCache p))
            (\<lambda>s. Ok (p\<lparr>resolutionCache := s,
                        projectLog := projectLog p @ [DetachFromProject scriptInfoPath]\<rparr>)))"

text \<open>
  Modelled from the spec: \<^verbatim>\<open>enumerateInsertsAndDeletes\<close> of core.ts is not among the sources;
  the spec has the project reconcile "the externally-supplied file list". The two sorted
  lists are walked together; a new item that is smaller is inserted, an old item that is
  smaller is deleted, equal items are skipped.
\<close>

fun enumerateInsertsAndDeletes ::
    "ProjectHost \<Rightarrow> string list \<Rightarrow> string list \<Rightarrow> Project \<Rightarrow> Project result" where
  "enumerateInsertsAndDeletes ph [] [] p = Ok p"
| "enumerateInsertsAndDeletes ph (newItem # newItems) [] p =
     enumerateInsertsAndDeletes ph newItems [] (p\<lparr>projectLog := projectLog p @ [AttachToProject newItem]\<rparr>)"
| "enumerateInsertsAndDeletes ph [] (oldItem # oldItems) p =
     andThen (detachScriptInfoFromProject ph oldItem p) (enumerateInsertsAndDeletes ph [] oldItems)"
| "enumerateInsertsAndDeletes ph (newItem # newItems) (oldItem # oldItems) p =
     (case compareValues ph newItem oldItem of
        LessThan \<Rightarrow>
          enumerateInsertsAndDeletes ph newItems (oldItem # oldItems)
            (p\<lparr>projectLog := projectLog p @ [AttachToProject newItem]\<rparr>)
      | GreaterThan \<Rightarrow>
          andThen (detachScriptInfoFromProject ph oldItem p)
            (enumerateInsertsAndDeletes ph (newItem # newItems) oldItems)
      | EqualTo \<Rightarrow> enumerateInsertsAndDeletes ph newItems oldItems p)"

subsection \<open>Unresolved imports\<close>

text \<open>\<^verbatim>\<open>str.indexOf("/", start)\<close>\<close>

definition indexOfSeparator :: "string \<Rightarrow> nat \<Rightarrow> nat option" where
  "indexOfSeparator str start =
     (case filter (\<lambda>i. start \<le> i \<and> str ! i = directorySeparator) [0..<length str] of
        [] \<Rightarrow> None
      | i # rest \<Rightarrow> Some i)"

text \<open>
  The name that \<^verbatim>\<open>extractUnresolvedImportsFromSourceFile\<close> records for an unresolved import:
  up to the first slash, for a scoped name (\<^verbatim>\<open>@scope/name\<close>) up to the second.
\<close>

definition unresolvedImportName :: "ProjectHost \<Rightarrow> string \<Rightarrow> string" where
  "unresolvedImportName ph name =
     (let trimmed = trim ph name;
          i = indexOfSeparator trimmed 0;
          j = (case i of
                 None \<Rightarrow> None
               | Some n \<Rightarrow> if trimmed \<noteq> [] \<and> hd trimmed = CHR ''@''
                           then indexOfSeparator trimmed (n + 1) else Some n)
      in case j of None \<Rightarrow> trimmed | Some n \<Rightarrow> take n trimmed)"

definition extractUnresolvedImportsFromSourceFile ::
    "ProjectHost \<Rightarrow> SourceFile \<Rightarrow> string list \<times> Project \<Rightarrow> string list \<times> Project" where
  "extractUnresolvedImportsFromSourceFile ph file acc =
     (case acc of
        (result, p) \<Rightarrow>
          (case map_of (cachedUnresolvedImportsPerFile p) (sourceFilePath file) of
             Some cached \<Rightarrow> (result @ cached, p)
           | None \<Rightarrow>
               let unresolvedImports =
                     (case resolvedModules file of
                        None \<Rightarrow> []
                      | Some modules \<Rightarrow>
                          map (\<lambda>(name, resolvedModule). unresolvedImportName ph name)
                            (filter (\<lambda>(name, resolvedModule).
                                       \<not> resolvedModule \<and> \<not> isExternalModuleNameRelative ph name)
                               modules))
               in (result @ unresolvedImports,
                   p\<lparr>cachedUnresolvedImportsPerFile :=
                       AList.update (sourceFilePath file) unresolvedImports
                         (cachedUnresolvedImportsPerFile p),
                     cachedUnresolvedImportsVersion := cachedUnresolvedImportsVersion p + 1\<rparr>)))"

text \<open>\<^verbatim>\<open>UnresolvedImportsMap.remove\<close>\<close>

definition removeCachedUnresolvedImports :: "path \<Rightarrow> Project \<Rightarrow> Project" where
  "removeCachedUnresolvedImports filePath p =
     p\<lparr>cachedUnresolvedImportsPerFile := AList.delete filePath (cachedUnresolvedImportsPerFile p),
       cachedUnresolvedImportsVersion := cachedUnresolvedImportsVersion p + 1\<rparr>"

subsection \<open>Updating the graph\<close>

text \<open>
  \<^verbatim>\<open>updateGraphWorker\<close>. \<^verbatim>\<open>hasChanges\<close> is true when there was no program, or when the builder
  handed back another program object and did not reuse the structure of the old one
  completely. Logging and timing are left out.
\<close>

definition updateGraphWorker :: "ProjectHost \<Rightarrow> Project \<Rightarrow> (bool \<times> Project) result" where
  "updateGraphWorker ph p =
     (let oldProgram = program p
      in andThen (startCachingPerDirectoryResolution (resolutionCache p))
           (\<lambda>s0. case getProgram ph p of
                    (calls, built) \<Rightarrow>
                      andThen (forEachM (hostCall ph) calls p)
                        (\<lambda>p1.
                           let p2 = p1\<lparr>program := (case built of
                                                      SameProgram \<Rightarrow> program p1
                                                    | NewProgram prog completely \<Rightarrow> Some prog),
                                       resolutionCache :=
                                         finishCachingPerDirectoryResolution (resolutionCache p1)\<rparr>;
                               hasChanges =
                                 (oldProgram = None
                                  \<or> (case built of
                                        SameProgram \<Rightarrow> False
                                      | NewProgram prog completely \<Rightarrow> \<not> completely));
                               p3 = p2\<lparr>hasChangedAutomaticTypeDirectiveNames := False\<rparr>
                           in andThen
                                (if hasChanges then
                                   (case program p3 of
                                      None \<Rightarrow> Throw TypeError
                                    | Some prog \<Rightarrow>
                                        andThen
                                          (forEachM
                                             (\<lambda>f q. if sourceFilePath f \<in> sourceFilePath ` set (sourceFiles prog)
                                                     then Ok q
                                                     else detachScriptInfoFromProject ph (sourceFileName f) q)
                                             (case oldProgram of None \<Rightarrow> [] | Some old \<Rightarrow> sourceFiles old)
                                             p3)
                                          (\<lambda>p4. let p5 = updateMissingFilePathsWatch prog p4
                                                 in Ok (if languageServiceEnabled p5
                                                        then p5\<lparr>resolutionCache :=
                                                                  updateTypeRootsWatch (cacheHost ph)
                                                                    (resolutionCache p5)\<rparr>
                                                        else p5)))
                                 else Ok p3)
                                (\<lambda>p6. andThen
                                         (enumerateInsertsAndDeletes ph (getExternalFiles ph)
                                            (case externalFiles p6 of None \<Rightarrow> [] | Some fs \<Rightarrow> fs)
                                            (p6\<lparr>externalFiles := Some (getExternalFiles ph)\<rparr>))
                                         (\<lambda>p7. Ok (hasChanges, p7))))))"

text \<open>\<^verbatim>\<open>arrayIsEqualTo(this.typingFiles, typings)\<close>: a missing array equals only a missing one.\<close>

definition setTypings :: "string list option \<Rightarrow> Project \<Rightarrow> bool \<times> Project" where
  "setTypings typings p =
     (if typingFiles p = typings then (False, p)
      else (True, markAsDirty (p\<lparr>typingFiles := typings\<rparr>)))"

text \<open>
  The statements of \<^verbatim>\<open>updateGraph\<close> between its first call of \<^verbatim>\<open>updateGraphWorker\<close> and
  the test of \<^verbatim>\<open>this.setTypings(cachedTypings)\<close>. They yield the answer of \<^verbatim>\<open>setTypings\<close>
  and the project; with the language service disabled \<^verbatim>\<open>setTypings\<close> is not called, which
  counts as the answer false.
\<close>

definition updateUnresolvedImportsAndTypings ::
    "ProjectHost \<Rightarrow> bool \<Rightarrow> Project \<Rightarrow> (bool \<times> Project) result" where
  "updateUnresolvedImportsAndTypings ph hasChanges p1 =
     (case finishRecordingFilesWithChangedResolutions (resolutionCache p1) of
        (collected, s2) \<Rightarrow>
          let changedFiles = (case collected of None \<Rightarrow> [] | Some fs \<Rightarrow> fs);
              p2 = fold removeCachedUnresolvedImports changedFiles (p1\<lparr>resolutionCache := s2\<rparr>)
          in if languageServiceEnabled p2 then
               andThen
                 (if hasChanges \<or> changedFiles \<noteq> [] then
                    (case program p2 of
                       None \<Rightarrow> Throw TypeError
                     | Some prog \<Rightarrow>
                         (case fold (extractUnresolvedImportsFromSourceFile ph)
                                 (sourceFiles prog) ([], p2) of
                            (result, p3) \<Rightarrow>
                              Ok (p3\<lparr>lastCachedUnresolvedImportsList :=
                                       Some (toDeduplicatedSortedArray ph result)\<rparr>)))
                  else Ok p2)
                 (\<lambda>p4. Ok (setTypings
                              (getTypingsForProject ph p4
                                 (lastCachedUnresolvedImportsList p4) hasChanges) p4))
             else Ok (False, p2\<lparr>lastCachedUnresolvedImportsList := None\<rparr>))"

text \<open>
  \<^verbatim>\<open>updateGraph\<close>; it returns \<^verbatim>\<open>!hasChanges\<close>. The emit builder is outside the project graph.
\<close>

definition updateGraph :: "ProjectHost \<Rightarrow> Project \<Rightarrow> (bool \<times> Project) result" where
  "updateGraph ph p =
     (case createHasInvalidatedResolution
             (startRecordingFilesWithChangedResolutions (resolutionCache p)) of
        (hasInvalidated, s1) \<Rightarrow>
          andThen (updateGraphWorker ph (p\<lparr>hasInvalidatedResolution := hasInvalidated,
                                           resolutionCache := s1\<rparr>))
            (\<lambda>(hasChanges, p1).
               andThen (updateUnresolvedImportsAndTypings ph hasChanges p1)
                 (\<lambda>(typingsChanged, p5).
                    andThen
                      (if typingsChanged
                       then andThen (updateGraphWorker ph p5)
                              (\<lambda>(hasChanges2, p6). Ok (hasChanges2 \<or> hasChanges, p6))
                       else Ok (hasChanges, p5))
                      (\<lambda>(hasChanges3, p7).
                         Ok (\<not> hasChanges3,
                             if hasChanges3
                             then p7\<lparr>projectStructureVersion := projectStructureVersion p7 + 1\<rparr>
                             else p7)))))"

subsection \<open>Roots and removed files\<close>




subsection \<open>Changes since a version\<close>

record ProjectInfo =
  infoProjectName :: string
  version :: int
  infoIsInferred :: bool
  languageServiceDisabled :: bool

record ProjectChanges =
  added :: "string list"
  removed :: "string list"
  updated :: "string list"

record ProjectFilesWithTSDiagnostics =
  info :: ProjectInfo
  files :: "string list option"
  changes :: "ProjectChanges option"
  projectErrors :: "string list"

text \<open>
  \<^verbatim>\<open>getChangesSinceVersion\<close> after its call of \<^verbatim>\<open>updateGraph\<close>. A \<^verbatim>\<open>lastKnownVersion\<close> that is
  \<^verbatim>\<open>undefined\<close> is not \<^verbatim>\<open>===\<close> to any version.
\<close>

definition changesSinceVersion ::
    "ProjectHost \<Rightarrow> int option \<Rightarrow> Project \<Rightarrow> ProjectFilesWithTSDiagnostics \<times> Project" where
  "changesSinceVersion ph lastKnownVersion p =
     (let projectInfo = \<lparr>infoProjectName = projectName ph, version = projectStructureVersion p,
                          infoIsInferred = isInferred ph,
                          languageServiceDisabled = (\<not> languageServiceEnabled p)\<rparr>;
          updatedNames = updatedFileNames p;
          p1 = p\<lparr>updatedFileNames := None\<rparr>
      in case lastReportedFileNames p1 of
           Some lastReported \<Rightarrow>
             if lastKnownVersion = Some (lastReportedVersion p1) then
               if projectStructureVersion p1 = lastReportedVersion p1 \<and> updatedNames = None
               then (\<lparr>info = projectInfo, files = None, changes = None,
                      projectErrors = getGlobalProjectErrors ph\<rparr>, p1)
               else
                 let currentFiles = arrayToSet (getFileNames ph p1
                                                @ map (toNormalizedPath ph) (getExternalFiles ph))
                 in (\<lparr>info = projectInfo, files = None,
                      changes = Some \<lparr>added = filter (\<lambda>f. f \<notin> set lastReported) currentFiles,
                                      removed = filter (\<lambda>f. f \<notin> set currentFiles) lastReported,
                                      updated = (case updatedNames of None \<Rightarrow> [] | Some fs \<Rightarrow> fs)\<rparr>,
                      projectErrors = getGlobalProjectErrors ph\<rparr>,
                     p1\<lparr>lastReportedFileNames := Some currentFiles,
                        lastReportedVersion := projectStructureVersion p1\<rparr>)
             else
               let allFiles = getFileNames ph p1 @ map (toNormalizedPath ph) (getExternalFiles ph)
               in (\<lparr>info = projectInfo, files = Some allFiles, changes = None,
                    projectErrors = getGlobalProjectErrors ph\<rparr>,
                   p1\<lparr>lastReportedFileNames := Some (arrayToSet allFiles),
                      lastReportedVersion := projectStructureVersion p1\<rparr>)
         | None \<Rightarrow>
             let allFiles = getFileNames ph p1 @ map (toNormalizedPath ph) (getExternalFiles ph)
             in (\<lparr>info = projectInfo, files = Some allFiles, changes = None,
                  projectErrors = getGlobalProjectErrors ph\<rparr>,
                 p1\<lparr>lastReportedFileNames := Some (arrayToSet allFiles),
                    lastReportedVersion := projectStructureVersion p1\<rparr>))"

definition getChangesSinceVersion ::
    "ProjectHost \<Rightarrow> int option \<Rightarrow> Project \<Rightarrow> (ProjectFilesWithTSDiagnostics \<times> Project) result" where
  "getChangesSinceVersion ph lastKnownVersion p =
     andThen (updateGraph ph p) (\<lambda>(unchanged, p1). Ok (changesSinceVersion ph lastKnownVersion p1))"

subsection \<open>Sequences of operations on a project\<close>




section \<open>A host and states for the examples\<close>

text \<open>
  A host with POSIX paths: \<^verbatim>\<open>toPath\<close> and the normalisation leave a rooted path as it is, and
  the directory of a path is the path up to its last separator, or the root \<^verbatim>\<open>/\<close>. The
  project root is \<^verbatim>\<open>/p\<close>.
\<close>

definition posixDirectoryPath :: "string \<Rightarrow> string" where
  "posixDirectoryPath p =
     take (max (if take 1 p = ''/'' then 1 else 0)
               (length p - Suc (length (takeWhile (\<lambda>c. c \<noteq> directorySeparator) (rev p))))) p"

text \<open>
  The file system of the examples has \<^verbatim>\<open>/p/c.ts\<close> and nothing else: \<^verbatim>\<open>./c\<close> and \<^verbatim>\<open>../c\<close>
  resolve to it, \<^verbatim>\<open>./b\<close> fails after three probes in \<^verbatim>\<open>/p\<close> and any other name after one probe
  under \<^verbatim>\<open>/node_modules\<close>.
\<close>

definition exampleLoader :: loader where
  "exampleLoader name containingFile =
     (if name = ''./b'' then (Some [''/p/b.ts'', ''/p/b.tsx'', ''/p/b.d.ts''], None)
      else if name = ''./c'' \<or> name = ''../c'' then (Some [], Some \<lparr>resolvedFileName = Some ''/p/c.ts''\<rparr>)
      else (Some [''/node_modules/x/index.ts''], None))"

definition exampleHost :: ResolutionCacheHost where
  "exampleHost =
     \<lparr>toPath = (\<lambda>f. f), toPathUndefined = [], getDirectoryPath = posixDirectoryPath,
      getNormalizedAbsolutePath = (\<lambda>f. f), rootDir = Some ''/p'',
      hostMaxNumberOfFilesToIterateForInvalidation = Some 2,
      resolveModuleName = exampleLoader, resolveTypeReferenceDirective = exampleLoader,
      optionsTypes = False, effectiveTypeRoots = None\<rparr>"

definition emptyCache :: ResolutionCache where
  "emptyCache =
     \<lparr>filesWithChangedSetOfUnresolvedImports = None, filesWithInvalidatedResolutions = None,
      allFilesHaveInvalidatedResolution = False,
      resolvedModuleNames = [], perDirectoryResolvedModuleNames = [],
      resolvedTypeReferenceDirectives = [], perDirectoryResolvedTypeReferenceDirectives = [],
      customFailedLookupPaths = [], directoryWatchesOfFailedLookups = [], typeRootsWatches = [],
      heap = (\<lambda>r. \<lparr>failedLookupLocations = None, resolvedResult = None, isInvalidated = False\<rparr>),
      nextRef = 0, hostLog = []\<rparr>"

text \<open>The state that an operation returns, or the given one when it does not return a state.\<close>

definition returned :: "'a result \<Rightarrow> 'a \<Rightarrow> 'a" where
  "returned m fallback = (case m of Some (Inr x) \<Rightarrow> x | _ \<Rightarrow> fallback)"

text \<open>The cache after \<^verbatim>\<open>/p/a.ts\<close> has resolved \<^verbatim>\<open>./b\<close> and \<^verbatim>\<open>./c\<close> in a first pass.\<close>

definition cacheAfterFirstPass :: ResolutionCache where
  "cacheAfterFirstPass =
     finishCachingPerDirectoryResolution
       (snd (returned (resolveModuleNames exampleHost [''./b'', ''./c''] ''/p/a.ts'' None True emptyCache)
               ([], emptyCache)))"

text \<open>
  Two files, \<^verbatim>\<open>/p/a.ts\<close> and \<^verbatim>\<open>/p/d/e.ts\<close>, have each resolved a name that fails; then the
  resolutions of \<^verbatim>\<open>/p/a.ts\<close> are removed, within the pass.
\<close>

definition cacheBeforeFinish :: ResolutionCache where
  "cacheBeforeFinish =
     returned
       (andThen (resolveModuleNames exampleHost [''./b''] ''/p/a.ts'' None True emptyCache)
          (\<lambda>(rs, s). andThen (resolveModuleNames exampleHost [''x''] ''/p/d/e.ts'' None True s)
             (\<lambda>(rs, s1). removeResolutionsOfFile exampleHost ''/p/a.ts'' s1)))
       emptyCache"

text \<open>Three containing files that import \<^verbatim>\<open>./c\<close>, after their pass; the host's ceiling is 2.\<close>

definition cacheWithThreeFiles :: ResolutionCache where
  "cacheWithThreeFiles =
     returned
       (andThen (resolveModuleNames exampleHost [''./c''] ''/p/a.ts'' None True emptyCache)
          (\<lambda>(rs, s). andThen (resolveModuleNames exampleHost [''../c''] ''/p/d/e.ts'' None True s)
             (\<lambda>(rs, s1). andThen (resolveModuleNames exampleHost [''./c''] ''/p/f.ts'' None True s1)
                (\<lambda>(rs, s2). Ok (finishCachingPerDirectoryResolution s2)))))
       emptyCache"

definition returns :: "'a result \<Rightarrow> bool" where
  "returns m = (case m of Some (Inr x) \<Rightarrow> True | _ \<Rightarrow> False)"

section \<open>Auxiliary notions for the properties\<close>

text \<open>
  Two states that differ at most in the custom failed lookup paths, the directory watches
  and the log of the host.
\<close>

definition onlyWatchesChanged :: "ResolutionCache \<Rightarrow> ResolutionCache \<Rightarrow> bool" where
  "onlyWatchesChanged s s' =
     (filesWithChangedSetOfUnresolvedImports s' = filesWithChangedSetOfUnresolvedImports s
      \<and> filesWithInvalidatedResolutions s' = filesWithInvalidatedResolutions s
      \<and> allFilesHaveInvalidatedResolution s' = allFilesHaveInvalidatedResolution s
      \<and> resolvedModuleNames s' = resolvedModuleNames s
      \<and> perDirectoryResolvedModuleNames s' = perDirectoryResolvedModuleNames s
      \<and> resolvedTypeReferenceDirectives s' = resolvedTypeReferenceDirectives s
      \<and> perDirectoryResolvedTypeReferenceDirectives s' = perDirectoryResolvedTypeReferenceDirectives s
      \<and> typeRootsWatches s' = typeRootsWatches s
      \<and> heap s' = heap s
      \<and> nextRef s' = nextRef s)"

text \<open>The watched directories with their watchers, without the counts.\<close>

definition watchedDirectories :: "ResolutionCache \<Rightarrow> (path \<times> string) list" where
  "watchedDirectories s = map (\<lambda>(d, w). (d, watcher w)) (directoryWatchesOfFailedLookups s)"

text \<open>The property that no directory watch has the count 0.\<close>

definition noWatchWithoutReference :: "ResolutionCache \<Rightarrow> bool" where
  "noWatchWithoutReference s = list_all (\<lambda>(d, w). refCount w \<noteq> 0) (directoryWatchesOfFailedLookups s)"

text \<open>
  Two states that differ at most in the set of files with invalidated resolutions, in the
  flag for all files, and in resolutions that have been marked as invalidated.
\<close>

definition onlyInvalidationChanged :: "ResolutionCache \<Rightarrow> ResolutionCache \<Rightarrow> bool" where
  "onlyInvalidationChanged s s' =
     (filesWithChangedSetOfUnresolvedImports s' = filesWithChangedSetOfUnresolvedImports s
      \<and> resolvedModuleNames s' = resolvedModuleNames s
      \<and> perDirectoryResolvedModuleNames s' = perDirectoryResolvedModuleNames s
      \<and> resolvedTypeReferenceDirectives s' = resolvedTypeReferenceDirectives s
      \<and> perDirectoryResolvedTypeReferenceDirectives s' = perDirectoryResolvedTypeReferenceDirectives s
      \<and> customFailedLookupPaths s' = customFailedLookupPaths s
      \<and> directoryWatchesOfFailedLookups s' = directoryWatchesOfFailedLookups s
      \<and> typeRootsWatches s' = typeRootsWatches s
      \<and> nextRef s' = nextRef s
      \<and> hostLog s' = hostLog s
      \<and> (\<forall>r. heap s' r = heap s r \<or> heap s' r = (heap s r)\<lparr>isInvalidated := True\<rparr>))"

text \<open>The same directories are watched by the same watchers, and the host was not called.\<close>

definition watchesKept :: "ResolutionCache \<Rightarrow> ResolutionCache \<Rightarrow> bool" where
  "watchesKept s s' = (watchedDirectories s' = watchedDirectories s \<and> hostLog s' = hostLog s)"

text \<open>
  The directory that is the first to satisfy \<open>stop\<close> when walking upward from \<open>q\<close> with
  \<open>gdp\<close>, together with the directory name walked upward as often; \<open>None\<close> when the walk
  never reaches one.
\<close>

definition firstAncestor ::
    "(string \<Rightarrow> string) \<Rightarrow> (path \<Rightarrow> bool) \<Rightarrow> string \<Rightarrow> path \<Rightarrow> (string \<times> path) option" where
  "firstAncestor gdp stop d q =
     (if \<exists>n. stop ((gdp ^^ n) q)
      then Some ((gdp ^^ (LEAST n. stop ((gdp ^^ n) q))) d, (gdp ^^ (LEAST n. stop ((gdp ^^ n) q))) q)
      else None)"

text \<open>
  The watch placement in the words of the specification: the project root when the failed
  path lies under it; otherwise the nearest ancestor that is a \<^verbatim>\<open>node_modules\<close> directory
  when the directory of the failed path is or traverses one; otherwise the first directory,
  walking upward from the directory of the failed path, that is an ancestor of the project
  root or has no parent but itself (without a project root, the directory of the failed
  path itself).
\<close>

definition watchPlacement :: "ResolutionCacheHost \<Rightarrow> string \<Rightarrow> path \<Rightarrow> (string \<times> path) option" where
  "watchPlacement h failedLookupLocation failedLookupLocationPath =
     (let gdp = getDirectoryPath h;
          d = gdp (getNormalizedAbsolutePath h failedLookupLocation);
          q = gdp failedLookupLocationPath
      in if isInDirectoryPath (rootPath h) failedLookupLocationPath
         then Some (the (rootDir h), the (rootPath h))
         else if isNodeModulesDirectory q \<or> containsString q ''/node_modules/''
         then firstAncestor gdp isNodeModulesDirectory d q
         else (case rootPath h of
                 None \<Rightarrow> Some (d, q)
               | Some root \<Rightarrow>
                   firstAncestor gdp (\<lambda>a. isInDirectoryPath (Some a) root \<or> gdp a = a) d q))"

text \<open>A host whose project root is \<^verbatim>\<open>/p/q\<close>.\<close>

definition exampleHostWithRoot :: ResolutionCacheHost where
  "exampleHostWithRoot = exampleHost\<lparr>rootDir := Some ''/p/q''\<rparr>"

text \<open>A project as its constructor leaves it, which ends with \<^verbatim>\<open>markAsDirty()\<close>.\<close>

definition emptyProject :: Project where
  "emptyProject =
     \<lparr>program = None, rootFiles = [], externalFiles = None, missingFilesMap = None,
      cachedUnresolvedImportsPerFile = [], cachedUnresolvedImportsVersion = 0,
      lastCachedUnresolvedImportsList = None, languageServiceEnabled = True,
      hasInvalidatedResolution = (\<lambda>f. False), resolutionCache = emptyCache,
      updatedFileNames = None, lastReportedFileNames = None, lastReportedVersion = 0,
      projectStructureVersion = 0, projectStateVersion = 1,
      hasChangedAutomaticTypeDirectiveNames = False, typingFiles = None, projectLog = []\<rparr>"

text \<open>
  The program of the examples: \<^verbatim>\<open>/p/a.ts\<close> imports \<^verbatim>\<open>./c\<close>, which is \<^verbatim>\<open>/p/c.ts\<close>, and
  \<^verbatim>\<open>./b\<close>, which is not found; it refers to \<^verbatim>\<open>/p/m.ts\<close>, which is missing.
\<close>

definition exampleProgram :: Program where
  "exampleProgram =
     \<lparr>sourceFiles =
        [\<lparr>sourceFilePath = ''/p/a.ts'', sourceFileName = ''/p/a.ts'',
          resolvedModules = Some [(''./c'', True), (''./b'', False)]\<rparr>,
         \<lparr>sourceFilePath = ''/p/c.ts'', sourceFileName = ''/p/c.ts'', resolvedModules = None\<rparr>],
      missingFilePaths = [''/p/m.ts''],
      configFile = None\<rparr>"

text \<open>
  A host whose builder makes the example program when there is none, resolving the imports
  of \<^verbatim>\<open>/p/a.ts\<close>, and hands back the program it was given otherwise. On its disk
  \<^verbatim>\<open>/p/m.ts\<close> has been created since.
\<close>

definition exampleProjectHost :: ProjectHost where
  "exampleProjectHost =
     \<lparr>cacheHost = exampleHost,
      directoryStructureHostFileExists = (\<lambda>f. f \<in> {''/p/a.ts'', ''/p/c.ts'', ''/p/m.ts''}),
      getProgram = (\<lambda>p. if program p = None
                          then ([ResolveModuleNames [''./c'', ''./b''] ''/p/a.ts'' None],
                                NewProgram exampleProgram False)
                          else ([], SameProgram)),
      getScriptInfo = (\<lambda>f. Some f),
      getTypingsForProject = (\<lambda>p unresolvedImports hasChanges. Some []),
      getExternalFiles = [],
      getGlobalProjectErrors = [],
      getDefaultLibFilePath = None,
      toNormalizedPath = (\<lambda>f. f),
      isExternalModuleNameRelative = (\<lambda>name. take 2 name = ''./'' \<or> take 3 name = ''../''),
      trim = (\<lambda>name. name),
      compareValues = (\<lambda>a b. if a = b then EqualTo else if lexordp (\<lambda>x y. (of_char x :: nat) < of_char y) a b then LessThan else GreaterThan),
      toDeduplicatedSortedArray = remdups,
      projectName = ''example'',
      isInferred = False\<rparr>"

definition projectAfterFirstUpdate :: Project where
  "projectAfterFirstUpdate = snd (returned (updateGraph exampleProjectHost emptyProject) (True, emptyProject))"

text \<open>
  The same host with a builder that makes the example program anew at every call, without
  reusing the structure of the old program completely.
\<close>

definition rebuildingProjectHost :: ProjectHost where
  "rebuildingProjectHost =
     exampleProjectHost\<lparr>getProgram := (\<lambda>p. ([], NewProgram exampleProgram False))\<rparr>"

text \<open>What \<^verbatim>\<open>getChangesSinceVersion\<close> keeps between two calls.\<close>

definition reportState :: "Project \<Rightarrow> int \<times> string list option \<times> string list option" where
  "reportState p = (lastReportedVersion p, lastReportedFileNames p, updatedFileNames p)"

text \<open>Whether a pass of \<^verbatim>\<open>updateGraphWorker\<close> from the state \<open>p\<close> finds the structure changed.\<close>

definition structureChanged :: "ProjectHost \<Rightarrow> Project \<Rightarrow> bool" where
  "structureChanged ph p =
     (program p = None
      \<or> (case snd (getProgram ph p) of
            SameProgram \<Rightarrow> False
          | NewProgram prog completely \<Rightarrow> \<not> completely))"

text \<open>The state in which \<^verbatim>\<open>updateGraph\<close> starts its first pass of \<^verbatim>\<open>updateGraphWorker\<close>.\<close>

definition stateOfFirstPass :: "Project \<Rightarrow> Project" where
  "stateOfFirstPass p =
     p\<lparr>hasInvalidatedResolution :=
         fst (createHasInvalidatedResolution
                (startRecordingFilesWithChangedResolutions (resolutionCache p))),
       resolutionCache :=
         snd (createHasInvalidatedResolution
                (startRecordingFilesWithChangedResolutions (resolutionCache p)))\<rparr>"

text \<open>
  The state in which \<^verbatim>\<open>updateGraph\<close> starts its second pass of \<^verbatim>\<open>updateGraphWorker\<close>, when
  it runs one: the first pass has returned and \<^verbatim>\<open>setTypings\<close> has answered true.
\<close>

definition stateOfSecondPass :: "ProjectHost \<Rightarrow> Project \<Rightarrow> Project option" where
  "stateOfSecondPass ph p =
     (case updateGraphWorker ph (stateOfFirstPass p) of
        Some (Inr (hasChanges, p1)) \<Rightarrow>
          (case updateUnresolvedImportsAndTypings ph hasChanges p1 of
             Some (Inr (typingsChanged, p5)) \<Rightarrow> if typingsChanged then Some p5 else None
           | _ \<Rightarrow> None)
      | _ \<Rightarrow> None)"

text \<open>
  Whether a pass of \<^verbatim>\<open>updateGraphWorker\<close> within one \<^verbatim>\<open>updateGraph\<close> from the state \<open>p\<close> finds
  the structure changed: the first pass, or the second pass when there is one.
\<close>

definition structureChangedInAPass :: "ProjectHost \<Rightarrow> Project \<Rightarrow> bool" where
  "structureChangedInAPass ph p =
     (structureChanged ph (stateOfFirstPass p)
      \<or> (case stateOfSecondPass ph p of None \<Rightarrow> False | Some p5 \<Rightarrow> structureChanged ph p5))"



text \<open>
  The first report of the example project, asked without a version, and the state after it;
  then the report for the version just reported.
\<close>

definition firstReport :: "ProjectFilesWithTSDiagnostics \<times> Project" where
  "firstReport =
     returned (getChangesSinceVersion exampleProjectHost None emptyProject)
       (changesSinceVersion exampleProjectHost None emptyProject)"

definition secondReport :: "ProjectFilesWithTSDiagnostics \<times> Project" where
  "secondReport =
     returned (getChangesSinceVersion exampleProjectHost (Some 1) (snd firstReport))
       (changesSinceVersion exampleProjectHost None emptyProject)"

text \<open>
  The files of the project as \<^verbatim>\<open>getChangesSinceVersion\<close> lists them: the file names and the
  external files.
\<close>

definition currentFileNames :: "ProjectHost \<Rightarrow> Project \<Rightarrow> string list" where
  "currentFileNames ph p = getFileNames ph p @ map (toNormalizedPath ph) (getExternalFiles ph)"

text \<open>The set of files that the project has recorded as reported.\<close>

definition reportedFiles :: "Project \<Rightarrow> string set" where
  "reportedFiles p = (case lastReportedFileNames p of None \<Rightarrow> {} | Some fs \<Rightarrow> set fs)"

text \<open>
  The set of files that a caller knows after a report, who knew the set \<open>known\<close> before: the
  full list when the report has one, the old set with the delta applied when it has a delta,
  and the old set otherwise.
\<close>

definition filesKnownAfter :: "string set \<Rightarrow> ProjectFilesWithTSDiagnostics \<Rightarrow> string set" where
  "filesKnownAfter known reported =
     (case files reported of
        Some allFiles \<Rightarrow> set allFiles
      | None \<Rightarrow>
          (case changes reported of
             None \<Rightarrow> known
           | Some delta \<Rightarrow> (known - set (removed delta)) \<union> set (added delta)))"

text \<open>
  The report of the rebuilding host for the version that the first report gave, and a host
  whose builder hands back a program with one more file.
\<close>

definition rebuiltReport :: "ProjectFilesWithTSDiagnostics \<times> Project" where
  "rebuiltReport =
     returned (getChangesSinceVersion rebuildingProjectHost (Some 1) (snd firstReport))
       (changesSinceVersion exampleProjectHost None emptyProject)"

definition extendedProgram :: Program where
  "extendedProgram =
     exampleProgram\<lparr>sourceFiles := sourceFiles exampleProgram
        @ [\<lparr>sourceFilePath = ''/p/d.ts'', sourceFileName = ''/p/d.ts'', resolvedModules = None\<rparr>]\<rparr>"

definition extendingProjectHost :: ProjectHost where
  "extendingProjectHost =
     exampleProjectHost\<lparr>getProgram := (\<lambda>p. ([], NewProgram extendedProgram False))\<rparr>"

definition extendedReport :: "ProjectFilesWithTSDiagnostics \<times> Project" where
  "extendedReport =
     returned (getChangesSinceVersion extendingProjectHost (Some 1) (snd firstReport))
       (changesSinceVersion exampleProjectHost None emptyProject)"


text \<open>
  Every name of \<open>N\<close> has a resolution for the file that is not invalidated and that, when all
  files are flagged as invalidated, is the one that the directory holds for the name.
\<close>

definition namesResolved :: "kind \<Rightarrow> path \<Rightarrow> path \<Rightarrow> string set \<Rightarrow> ResolutionCache \<Rightarrow> bool" where
  "namesResolved k fp dp N s =
     (\<forall>name\<in>N. \<exists>r. map_of (resolutionsOfFile k fp s) name = Some r
                    \<and> \<not> isInvalidated (heap s r)
                    \<and> (allFilesHaveInvalidatedResolution s
                         \<longrightarrow> map_of (resolutionsOfDirectory k dp s) name = Some r))"

text \<open>
  The cache of the three files after \<^verbatim>\<open>/p/c.ts\<close> has changed: the ceiling of 2 files is
  exceeded, so all files are flagged. A pass has begun to record the files with changes.
\<close>

definition cacheWithAllFilesInvalidated :: ResolutionCache where
  "cacheWithAllFilesInvalidated =
     startRecordingFilesWithChangedResolutions
       (returned (invalidateResolutionOfFile exampleHost ''/p/c.ts'' cacheWithThreeFiles)
          cacheWithThreeFiles)"

text \<open>In that pass \<^verbatim>\<open>/p/a.ts\<close> resolves \<^verbatim>\<open>./c\<close> anew, with a fresh resolution object.\<close>

definition cacheAfterResolvingAnew :: ResolutionCache where
  "cacheAfterResolvingAnew =
     snd (returned (resolveModuleNames exampleHost [''./c''] ''/p/a.ts'' None True
                      cacheWithAllFilesInvalidated)
            ([], cacheWithAllFilesInvalidated))"




text \<open>The resolved result of every resolution held for a name is the one of the loader.\<close>

definition loaded :: "ResolutionCacheHost \<Rightarrow> kind \<Rightarrow> string \<Rightarrow> path \<Rightarrow> path \<Rightarrow> ResolutionCache \<Rightarrow> bool" where
  "loaded h k cf fp dp s =
     (\<forall>n r. map_of (resolutionsOfFile k fp s) n = Some r
               \<or> map_of (resolutionsOfDirectory k dp s) n = Some r
             \<longrightarrow> resolvedResult (heap s r) = snd (loaderOf h k n cf))"

text \<open>The failed lookup location is watched at the directory: the placement chooses it.\<close>

definition placedAt :: "ResolutionCacheHost \<Rightarrow> path \<Rightarrow> string \<Rightarrow> bool" where
  "placedAt h dirPath failedLookupLocation =
     (case getDirectoryToWatchFailedLookupLocation h failedLookupLocation
             (toPath h failedLookupLocation) of
        None \<Rightarrow> False
      | Some (d, p) \<Rightarrow> p = dirPath)"

text \<open>The number of the locations that are watched at the directory.\<close>

definition placedCount :: "ResolutionCacheHost \<Rightarrow> path \<Rightarrow> string list \<Rightarrow> int" where
  "placedCount h dirPath locations = int (length (filter (placedAt h dirPath) locations))"

text \<open>The count of the watch of a directory, if the directory has an entry.\<close>

definition countOf :: "ResolutionCache \<Rightarrow> path \<Rightarrow> int option" where
  "countOf s dirPath = map_option refCount (map_of (directoryWatchesOfFailedLookups s) dirPath)"

text \<open>The failed lookup locations of a resolution; none when it has no list of them.\<close>

definition failedLookupLocationsOfResolution :: "(ref \<Rightarrow> resolution) \<Rightarrow> ref \<Rightarrow> string list" where
  "failedLookupLocationsOfResolution hp r =
     (case failedLookupLocations (hp r) of None \<Rightarrow> [] | Some locations \<Rightarrow> locations)"

text \<open>The failed lookup locations of the resolutions of a map, in the order of the map.\<close>

definition failedLookupLocationsOf :: "(ref \<Rightarrow> resolution) \<Rightarrow> (string \<times> ref) list \<Rightarrow> string list" where
  "failedLookupLocationsOf hp resolutions =
     concat (map (\<lambda>(name, r). failedLookupLocationsOfResolution hp r) resolutions)"

text \<open>
  From \<open>s\<close> to \<open>s'\<close> the count of every directory has gone down by the number of the
  locations that are watched at it, and nothing else has happened to the watches.
\<close>

definition releasedFrom ::
    "ResolutionCacheHost \<Rightarrow> string list \<Rightarrow> ResolutionCache \<Rightarrow> ResolutionCache \<Rightarrow> bool" where
  "releasedFrom h locations s s' =
     (watchedDirectories s' = watchedDirectories s \<and> hostLog s' = hostLog s
      \<and> (\<forall>dirPath. countOf s' dirPath
             = map_option (\<lambda>c. c - placedCount h dirPath locations) (countOf s dirPath)))"

text \<open>The failed lookup locations of the resolutions of a containing file, of both kinds.\<close>

definition failedLookupLocationsOfFile :: "ResolutionCache \<Rightarrow> path \<Rightarrow> string list" where
  "failedLookupLocationsOfFile s filePath =
     failedLookupLocationsOf (heap s) (resolutionsOfFile ModuleNames filePath s)
     @ failedLookupLocationsOf (heap s) (resolutionsOfFile TypeReferenceDirectives filePath s)"

text \<open>
  The entries of a per-file map in the order in which \<^verbatim>\<open>invalidateResolutionCache\<close> visits
  them: the containing file, its directory, the name and the resolution.
\<close>

definition entriesOfFile ::
    "ResolutionCacheHost \<Rightarrow> path \<times> (string \<times> ref) list \<Rightarrow> (path \<times> path \<times> string \<times> ref) list" where
  "entriesOfFile h fileEntry =
     map (\<lambda>entry. (fst fileEntry, getDirectoryPath h (fst fileEntry), entry)) (snd fileEntry)"

definition cachedEntries ::
    "ResolutionCacheHost \<Rightarrow> kind \<Rightarrow> ResolutionCache \<Rightarrow> (path \<times> path \<times> string \<times> ref) list" where
  "cachedEntries h k s = concat (map (entriesOfFile h) (cacheOf k s))"

definition entryKey :: "path \<times> path \<times> string \<times> ref \<Rightarrow> path \<times> string" where
  "entryKey e = (fst (snd e), fst (snd (snd e)))"

definition entryRef :: "path \<times> path \<times> string \<times> ref \<Rightarrow> ref" where
  "entryRef e = snd (snd (snd e))"

text \<open>No earlier entry has the directory and the name of the entry at \<open>i\<close>.\<close>

definition firstInDirectory :: "(path \<times> path \<times> string \<times> ref) list \<Rightarrow> nat \<Rightarrow> bool" where
  "firstInDirectory es i = (\<forall>j<i. entryKey (es ! j) \<noteq> entryKey (es ! i))"


text \<open>The callback of the inner loop of \<^verbatim>\<open>invalidateResolutionCache\<close> on such an entry.\<close>

definition invalidateCachedEntry ::
    "kind \<Rightarrow> (resolution \<Rightarrow> (resolution \<Rightarrow> ResolutionWithResolvedFileName option) \<Rightarrow> bool) \<Rightarrow>
     path \<times> path \<times> string \<times> ref \<Rightarrow> (path \<times> string) list \<times> ResolutionCache \<Rightarrow>
     (path \<times> string) list \<times> ResolutionCache" where
  "invalidateCachedEntry k isInv e acc =
     invalidateResolutionEntry k isInv (fst e) (fst (snd e)) (snd (snd e)) acc"

text \<open>
  What a run of the callback over the entries \<open>es\<close> has done to the resolutions: a resolution
  is as it was or it satisfies the predicate and has been marked, and the first resolution of
  every directory and name is marked if it satisfies the predicate.
\<close>

definition markedBy ::
    "(resolution \<Rightarrow> (resolution \<Rightarrow> ResolutionWithResolvedFileName option) \<Rightarrow> bool) \<Rightarrow>
     (path \<times> path \<times> string \<times> ref) list \<Rightarrow> ResolutionCache \<Rightarrow> ResolutionCache \<Rightarrow> bool" where
  "markedBy isInv es s t =
     ((\<forall>r. heap t r = heap s r
            \<or> (isInv (heap s r) resolvedResult
               \<and> heap t r = (heap s r)\<lparr>isInvalidated := True\<rparr>))
      \<and> (\<forall>i<length es. firstInDirectory es i \<and> isInv (heap s (entryRef (es ! i))) resolvedResult
           \<longrightarrow> isInvalidated (heap t (entryRef (es ! i)))))"


text \<open>
  Two containing files of one directory that have resolved \<^verbatim>\<open>./c\<close> in two passes: each has
  a resolution object of its own.
\<close>

definition cacheOfTwoPasses :: ResolutionCache where
  "cacheOfTwoPasses =
     returned
       (andThen (resolveModuleNames exampleHost [''./c''] ''/p/a.ts'' None True emptyCache)
          (\<lambda>(rs, s). andThen (resolveModuleNames exampleHost [''./c''] ''/p/f.ts'' None True
                                 (finishCachingPerDirectoryResolution s))
             (\<lambda>(rs, s1). Ok (finishCachingPerDirectoryResolution s1))))
       emptyCache"

text \<open>
  \<^verbatim>\<open>resolutionHost.maxNumberOfFilesToIterateForInvalidation || maxNumberOfFilesToIterateForInvalidation\<close>,
  the ceiling in force.
\<close>

definition iterationCeiling :: "ResolutionCacheHost \<Rightarrow> int" where
  "iterationCeiling h =
     (case hostMaxNumberOfFilesToIterateForInvalidation h of
        None \<Rightarrow> maxNumberOfFilesToIterateForInvalidation
      | Some n \<Rightarrow> if n = 0 then maxNumberOfFilesToIterateForInvalidation else n)"

text \<open>The distinct containing files that the two per-file maps hold.\<close>

definition cachedContainingFiles :: "ResolutionCache \<Rightarrow> path list" where
  "cachedContainingFiles s =
     remdups (map fst (resolvedModuleNames s) @ map fst (resolvedTypeReferenceDirectives s))"

text \<open>
  Four containing files after their pass: two have resolved the module name \<^verbatim>\<open>./c\<close> and two
  others the type reference directive \<^verbatim>\<open>./c\<close>; the host's ceiling is 2.
\<close>

definition cacheWithTwoAndTwoFiles :: ResolutionCache where
  "cacheWithTwoAndTwoFiles =
     returned
       (andThen (resolveModuleNames exampleHost [''./c''] ''/p/a.ts'' None True emptyCache)
          (\<lambda>(rs, s). andThen (resolveModuleNames exampleHost [''./c''] ''/p/f.ts'' None True s)
             (\<lambda>(rs, s1). andThen (resolveTypeReferenceDirectives exampleHost [''./c''] ''/p/x.ts'' s1)
                (\<lambda>(rs, s2). andThen (resolveTypeReferenceDirectives exampleHost [''./c''] ''/p/y.ts'' s2)
                   (\<lambda>(rs, s3). Ok (finishCachingPerDirectoryResolution s3))))))
       emptyCache"

section \<open>Properties\<close>

lemma andThen_Ok [simp]: "andThen (Ok x) f = f x"
  by (simp add: andThen_def)

lemma andThen_Throw [simp]: "andThen (Throw e) f = Throw e"
  by (simp add: andThen_def)

lemma andThen_None [simp]: "andThen None f = None"
  by (simp add: andThen_def)

lemma andThen_eq_Ok: "andThen m f = Ok y \<longleftrightarrow> (\<exists>x. m = Ok x \<and> f x = Ok y)"
  by (auto simp: andThen_def split: option.splits sum.splits)

subsection \<open>What the watch operations leave alone\<close>

lemma forEachM_preserves:
  assumes "forEachM f xs s = Ok s'" and "P s"
    and "\<And>x t t'. x \<in> set xs \<Longrightarrow> f x t = Ok t' \<Longrightarrow> P t \<Longrightarrow> P t'"
  shows "P s'"
  using assms
proof (induction xs arbitrary: s)
  case Nil
  then show ?case by simp
next
  case (Cons x xs)
  from Cons.prems(1) obtain t where t: "f x s = Ok t" and rest: "forEachM f xs t = Ok s'"
    by (auto simp: andThen_eq_Ok)
  have "P t" using Cons.prems(3) [of x s t] t Cons.prems(2) by simp
  show ?case
  proof (rule Cons.IH [OF rest \<open>P t\<close>])
    fix y u u' assume "y \<in> set xs" "f y u = Ok u'" "P u"
    then show "P u'" using Cons.prems(3) [of y u u'] by simp
  qed
qed

lemma onlyWatchesChanged_refl [simp]: "onlyWatchesChanged s s"
  by (simp add: onlyWatchesChanged_def)

lemma onlyWatchesChanged_trans:
  "onlyWatchesChanged s t \<Longrightarrow> onlyWatchesChanged t u \<Longrightarrow> onlyWatchesChanged s u"
  by (simp add: onlyWatchesChanged_def)

lemma watchFailedLookupLocation_frame:
  "watchFailedLookupLocation h l s = Ok s' \<Longrightarrow> onlyWatchesChanged s s'"
  by (auto simp: watchFailedLookupLocation_def onlyWatchesChanged_def Let_def
      split: option.splits prod.splits if_splits)

lemma stopWatchFailedLookupLocation_frame:
  assumes "stopWatchFailedLookupLocation h l s = Ok s'"
  shows "onlyWatchesChanged s s'"
proof -
  from assms obtain s1 where
    a: "(case map_of (customFailedLookupPaths s) (toPath h l) of
           None \<Rightarrow> Ok s
         | Some count \<Rightarrow>
             if count = 0 then Ok s
             else if count = 1
             then Ok (s\<lparr>customFailedLookupPaths := AList.delete (toPath h l) (customFailedLookupPaths s)\<rparr>)
             else if 1 < count
             then Ok (s\<lparr>customFailedLookupPaths :=
                         AList.update (toPath h l) (count - 1) (customFailedLookupPaths s)\<rparr>)
             else Throw AssertionFailure) = Ok s1"
    and b: "(case getDirectoryToWatchFailedLookupLocation h l (toPath h l) of
               None \<Rightarrow> None
             | Some (d, dirPath) \<Rightarrow>
                 (case map_of (directoryWatchesOfFailedLookups s1) dirPath of
                    None \<Rightarrow> Throw TypeError
                  | Some dirWatcher \<Rightarrow>
                      Ok (s1\<lparr>directoryWatchesOfFailedLookups :=
                              AList.update dirPath (dirWatcher\<lparr>refCount := refCount dirWatcher - 1\<rparr>)
                                (directoryWatchesOfFailedLookups s1)\<rparr>))) = Ok s'"
    unfolding stopWatchFailedLookupLocation_def Let_def andThen_eq_Ok by blast
  from a have "onlyWatchesChanged s s1"
    by (auto simp: onlyWatchesChanged_def split: option.splits if_splits)
  moreover from b have "onlyWatchesChanged s1 s'"
    by (auto simp: onlyWatchesChanged_def split: option.splits prod.splits)
  ultimately show ?thesis by (rule onlyWatchesChanged_trans)
qed

lemma forEachM_frame:
  assumes "forEachM f xs s = Ok s'"
    and "\<And>x t t'. x \<in> set xs \<Longrightarrow> f x t = Ok t' \<Longrightarrow> onlyWatchesChanged t t'"
  shows "onlyWatchesChanged s s'"
  by (rule forEachM_preserves [OF assms(1), where P = "onlyWatchesChanged s"])
     (auto intro: onlyWatchesChanged_trans assms(2))

lemma watchFailedLookupLocationOfResolution_frame:
  "watchFailedLookupLocationOfResolution h r i s = Ok s' \<Longrightarrow> onlyWatchesChanged s s'"
  by (auto simp: watchFailedLookupLocationOfResolution_def split: option.splits
      elim!: forEachM_frame intro: watchFailedLookupLocation_frame)

lemma stopWatchFailedLookupLocationOfResolutionFrom_frame:
  "stopWatchFailedLookupLocationOfResolutionFrom h r i s = Ok s' \<Longrightarrow> onlyWatchesChanged s s'"
  by (auto simp: stopWatchFailedLookupLocationOfResolutionFrom_def split: option.splits
      elim!: forEachM_frame intro: stopWatchFailedLookupLocation_frame)

lemma stopWatchFailedLookupLocationOfResolution_frame:
  "stopWatchFailedLookupLocationOfResolution h r s = Ok s' \<Longrightarrow> onlyWatchesChanged s s'"
  by (auto simp: stopWatchFailedLookupLocationOfResolution_def split: option.splits
      intro: stopWatchFailedLookupLocationOfResolutionFrom_frame)

lemma diffFailedLookupLocations_frame:
  "diffFailedLookupLocations h r e ls es i s = Ok s' \<Longrightarrow> onlyWatchesChanged s s'"
proof (induction h r e ls es i s rule: diffFailedLookupLocations.induct)
  case (1 h r existing locations existingLocations index s)
  from "1.prems" have unfolded:
    "(if index < length locations then
        if index = length existingLocations
        then watchFailedLookupLocationOfResolution h r index s
        else if length existingLocations < index \<or> locations ! index \<noteq> existingLocations ! index
        then andThen (watchFailedLookupLocationOfResolution h r index s)
               (stopWatchFailedLookupLocationOfResolutionFrom h existing index)
        else diffFailedLookupLocations h r existing locations existingLocations (Suc index) s
      else stopWatchFailedLookupLocationOfResolutionFrom h existing (length locations) s) = Ok s'"
    by (subst (asm) diffFailedLookupLocations.simps)
  show ?case
  proof (cases "index < length locations")
    case False
    with unfolded show ?thesis
      by (simp add: stopWatchFailedLookupLocationOfResolutionFrom_frame)
  next
    case True
    show ?thesis
    proof (cases "index = length existingLocations")
      case eq: True
      with True unfolded show ?thesis
        by (simp add: watchFailedLookupLocationOfResolution_frame)
    next
      case ne: False
      show ?thesis
      proof (cases "length existingLocations < index \<or> locations ! index \<noteq> existingLocations ! index")
        case differ: True
        with True ne unfolded obtain t where
          "watchFailedLookupLocationOfResolution h r index s = Ok t"
          "stopWatchFailedLookupLocationOfResolutionFrom h existing index t = Ok s'"
          by (auto simp: andThen_eq_Ok)
        then show ?thesis
          by (blast intro: onlyWatchesChanged_trans watchFailedLookupLocationOfResolution_frame
              stopWatchFailedLookupLocationOfResolutionFrom_frame)
      next
        case same: False
        with True ne unfolded have
          "diffFailedLookupLocations h r existing locations existingLocations (Suc index) s = Ok s'"
          by simp
        with "1.IH" True ne same show ?thesis by blast
      qed
    qed
  qed
qed

lemma watchAndStopWatchDiffFailedLookupLocations_frame:
  "watchAndStopWatchDiffFailedLookupLocations h r e s = Ok s' \<Longrightarrow> onlyWatchesChanged s s'"
  by (auto simp: watchAndStopWatchDiffFailedLookupLocations_def split: option.splits
      intro: diffFailedLookupLocations_frame)

subsection \<open>The end of a pass\<close>

text \<open>
  C5. After \<^verbatim>\<open>finishCachingPerDirectoryResolution()\<close> both per-directory maps are empty, no
  directory watch with the count 0 is left, every watch that had the count 0 has been
  closed, and the watches with another count are kept as they were.
\<close>

theorem finishCachingPerDirectoryResolution_prunes:
  "perDirectoryResolvedModuleNames (finishCachingPerDirectoryResolution s) = []
   \<and> perDirectoryResolvedTypeReferenceDirectives (finishCachingPerDirectoryResolution s) = []
   \<and> (\<forall>(d, w) \<in> set (directoryWatchesOfFailedLookups (finishCachingPerDirectoryResolution s)).
         refCount w \<noteq> 0)
   \<and> (\<forall>(d, w) \<in> set (directoryWatchesOfFailedLookups s).
         if refCount w = 0
         then (d, w) \<notin> set (directoryWatchesOfFailedLookups (finishCachingPerDirectoryResolution s))
              \<and> CloseWatcher (watcher w) \<in> set (hostLog (finishCachingPerDirectoryResolution s))
         else (d, w) \<in> set (directoryWatchesOfFailedLookups (finishCachingPerDirectoryResolution s)))"
  by (auto simp: finishCachingPerDirectoryResolution_def intro!: image_eqI)

lemma directoryWatches_cacheBeforeFinish:
  "directoryWatchesOfFailedLookups cacheBeforeFinish =
     [(''/p'', \<lparr>watcher = ''/p'', refCount = 0\<rparr>),
      (''/node_modules'', \<lparr>watcher = ''/node_modules'', refCount = 1\<rparr>)]"
  by code_simp

theorem finishCachingPerDirectoryResolution_prunes_witness:
  "(''/p'', \<lparr>watcher = ''/p'', refCount = 0\<rparr>) \<in> set (directoryWatchesOfFailedLookups cacheBeforeFinish)
   \<and> (''/p'', \<lparr>watcher = ''/p'', refCount = 0\<rparr>)
        \<notin> set (directoryWatchesOfFailedLookups (finishCachingPerDirectoryResolution cacheBeforeFinish))
   \<and> CloseWatcher ''/p'' \<in> set (hostLog (finishCachingPerDirectoryResolution cacheBeforeFinish))
   \<and> (''/node_modules'', \<lparr>watcher = ''/node_modules'', refCount = 1\<rparr>)
        \<in> set (directoryWatchesOfFailedLookups (finishCachingPerDirectoryResolution cacheBeforeFinish))
   \<and> perDirectoryResolvedModuleNames (finishCachingPerDirectoryResolution cacheBeforeFinish) = []"
  using finishCachingPerDirectoryResolution_prunes [of cacheBeforeFinish]
    directoryWatches_cacheBeforeFinish
  by simp

subsection \<open>The ceiling on the files to iterate\<close>

lemma resolvedModuleNames_cacheWithThreeFiles:
  "resolvedModuleNames cacheWithThreeFiles =
     [(''/p/a.ts'', [(''./c'', 0)]), (''/p/d/e.ts'', [(''../c'', 1)]), (''/p/f.ts'', [(''./c'', 0)])]"
  by code_simp

subsection \<open>What invalidation leaves alone\<close>

lemma onlyInvalidationChanged_refl [simp]: "onlyInvalidationChanged s s"
  by (simp add: onlyInvalidationChanged_def)

lemma onlyInvalidationChanged_trans:
  assumes "onlyInvalidationChanged s t" and "onlyInvalidationChanged t u"
  shows "onlyInvalidationChanged s u"
proof -
  have "heap u r = heap s r \<or> heap u r = (heap s r)\<lparr>isInvalidated := True\<rparr>" for r
  proof -
    from assms(1) have a: "heap t r = heap s r \<or> heap t r = (heap s r)\<lparr>isInvalidated := True\<rparr>"
      by (simp add: onlyInvalidationChanged_def)
    from assms(2) have b: "heap u r = heap t r \<or> heap u r = (heap t r)\<lparr>isInvalidated := True\<rparr>"
      by (simp add: onlyInvalidationChanged_def)
    from a b show ?thesis by auto
  qed
  with assms show ?thesis by (simp add: onlyInvalidationChanged_def)
qed

lemma invalidateResolutionEntry_frame:
  "invalidateResolutionEntry k isInv f d e (seen, s) = (seen', s') \<Longrightarrow> onlyInvalidationChanged s s'"
  by (cases e) (auto simp: invalidateResolutionEntry_def onlyInvalidationChanged_def split: if_splits)

lemma fold_invalidateResolutionEntry_frame:
  "fold (invalidateResolutionEntry k isInv f d) es (seen, s) = (seen', s')
   \<Longrightarrow> onlyInvalidationChanged s s'"
proof (induction es arbitrary: seen s)
  case Nil
  then show ?case by simp
next
  case (Cons e es)
  obtain seen1 s1 where step: "invalidateResolutionEntry k isInv f d e (seen, s) = (seen1, s1)"
    by (cases "invalidateResolutionEntry k isInv f d e (seen, s)")
  with Cons.prems have "fold (invalidateResolutionEntry k isInv f d) es (seen1, s1) = (seen', s')"
    by simp
  from Cons.IH [OF this] invalidateResolutionEntry_frame [OF step] show ?case
    by (rule onlyInvalidationChanged_trans [rotated])
qed

lemma invalidateResolutionsOfContainingFile_frame:
  "invalidateResolutionsOfContainingFile h k isInv fe (seen, s) = (seen', s')
   \<Longrightarrow> onlyInvalidationChanged s s'"
  by (cases fe) (auto simp: invalidateResolutionsOfContainingFile_def
      dest: fold_invalidateResolutionEntry_frame)

lemma fold_invalidateResolutionsOfContainingFile_frame:
  "fold (invalidateResolutionsOfContainingFile h k isInv) fes (seen, s) = (seen', s')
   \<Longrightarrow> onlyInvalidationChanged s s'"
proof (induction fes arbitrary: seen s)
  case Nil
  then show ?case by simp
next
  case (Cons fe fes)
  obtain seen1 s1 where
    step: "invalidateResolutionsOfContainingFile h k isInv fe (seen, s) = (seen1, s1)"
    by (cases "invalidateResolutionsOfContainingFile h k isInv fe (seen, s)")
  with Cons.prems have
    "fold (invalidateResolutionsOfContainingFile h k isInv) fes (seen1, s1) = (seen', s')"
    by simp
  from Cons.IH [OF this] invalidateResolutionsOfContainingFile_frame [OF step] show ?case
    by (rule onlyInvalidationChanged_trans [rotated])
qed

lemma invalidateResolutionCache_frame:
  "onlyInvalidationChanged s (invalidateResolutionCache h k isInv s)"
  unfolding invalidateResolutionCache_def
  by (cases "fold (invalidateResolutionsOfContainingFile h k isInv) (cacheOf k s) ([], s)")
     (auto dest: fold_invalidateResolutionsOfContainingFile_frame)

lemma invalidateResolutions_frame:
  "onlyInvalidationChanged s (invalidateResolutions h isInv s)"
  unfolding invalidateResolutions_def
  by (auto simp: onlyInvalidationChanged_def [of s "s\<lparr>allFilesHaveInvalidatedResolution := True\<rparr>"]
      intro: onlyInvalidationChanged_trans invalidateResolutionCache_frame)

subsection \<open>Releasing a failed lookup location keeps the watch\<close>

lemma map_watcher_update:
  "map_of al k = Some w \<Longrightarrow> watcher w' = watcher w
   \<Longrightarrow> map (\<lambda>(d, w). (d, watcher w)) (AList.update k w' al) = map (\<lambda>(d, w). (d, watcher w)) al"
  by (induction al) (auto split: if_splits)

lemma watchesKept_refl [simp]: "watchesKept s s"
  by (simp add: watchesKept_def)

lemma stopWatchFailedLookupLocation_keeps:
  assumes "stopWatchFailedLookupLocation h l s = Ok s'"
  shows "watchesKept s s'"
proof -
  from assms obtain s1 where
    a: "(case map_of (customFailedLookupPaths s) (toPath h l) of
           None \<Rightarrow> Ok s
         | Some count \<Rightarrow>
             if count = 0 then Ok s
             else if count = 1
             then Ok (s\<lparr>customFailedLookupPaths := AList.delete (toPath h l) (customFailedLookupPaths s)\<rparr>)
             else if 1 < count
             then Ok (s\<lparr>customFailedLookupPaths :=
                         AList.update (toPath h l) (count - 1) (customFailedLookupPaths s)\<rparr>)
             else Throw AssertionFailure) = Ok s1"
    and b: "(case getDirectoryToWatchFailedLookupLocation h l (toPath h l) of
               None \<Rightarrow> None
             | Some (d, dirPath) \<Rightarrow>
                 (case map_of (directoryWatchesOfFailedLookups s1) dirPath of
                    None \<Rightarrow> Throw TypeError
                  | Some dirWatcher \<Rightarrow>
                      Ok (s1\<lparr>directoryWatchesOfFailedLookups :=
                              AList.update dirPath (dirWatcher\<lparr>refCount := refCount dirWatcher - 1\<rparr>)
                                (directoryWatchesOfFailedLookups s1)\<rparr>))) = Ok s'"
    unfolding stopWatchFailedLookupLocation_def Let_def andThen_eq_Ok by blast
  from a have "watchesKept s s1"
    by (auto simp: watchesKept_def watchedDirectories_def split: option.splits if_splits)
  moreover from b have "watchesKept s1 s'"
    by (auto simp: watchesKept_def watchedDirectories_def map_watcher_update
        split: option.splits prod.splits)
  ultimately show ?thesis by (simp add: watchesKept_def)
qed

lemma forEachM_keeps:
  assumes "forEachM f xs s = Ok s'"
    and "\<And>x t t'. x \<in> set xs \<Longrightarrow> f x t = Ok t' \<Longrightarrow> watchesKept t t'"
  shows "watchesKept s s'"
  by (rule forEachM_preserves [OF assms(1), where P = "watchesKept s"])
     (auto simp: watchesKept_def dest: assms(2))

lemma stopWatchFailedLookupLocationOfResolutionFrom_keeps:
  "stopWatchFailedLookupLocationOfResolutionFrom h r i s = Ok s' \<Longrightarrow> watchesKept s s'"
  by (auto simp: stopWatchFailedLookupLocationOfResolutionFrom_def split: option.splits
      elim!: forEachM_keeps intro: stopWatchFailedLookupLocation_keeps)

lemma stopWatchFailedLookupLocationOfResolution_keeps:
  "stopWatchFailedLookupLocationOfResolution h r s = Ok s' \<Longrightarrow> watchesKept s s'"
  by (auto simp: stopWatchFailedLookupLocationOfResolution_def
      split: option.splits intro: stopWatchFailedLookupLocationOfResolutionFrom_keeps)

lemma watchesKept_setCache [simp]: "watchesKept s (setCache k c s') = watchesKept s s'"
  by (cases k) (simp_all add: watchesKept_def watchedDirectories_def setCache_def)

lemma removeUnusedName_keeps:
  "removeUnusedName h k fp seen reused e s = Ok s' \<Longrightarrow> watchesKept s s'"
  by (cases e)
     (auto simp: removeUnusedName_def setResolutionsOfFile_def andThen_eq_Ok split: if_splits
        dest: stopWatchFailedLookupLocationOfResolution_keeps)

lemma removeResolutionsOfFileFromCache_keeps:
  assumes "removeResolutionsOfFileFromCache h k f s = Ok s'"
  shows "watchesKept s s'"
proof (cases "map_of (cacheOf k s) f")
  case None
  with assms show ?thesis by (simp add: removeResolutionsOfFileFromCache_def watchesKept_def)
next
  case (Some resolutions)
  with assms obtain s1 where
    a: "forEachM (\<lambda>(name, r). stopWatchFailedLookupLocationOfResolution h r) resolutions s = Ok s1"
    and b: "s' = setCache k (AList.delete f (cacheOf k s1)) s1"
    by (auto simp: removeResolutionsOfFileFromCache_def andThen_eq_Ok)
  from a have "watchesKept s s1"
    by (rule forEachM_keeps) (auto dest: stopWatchFailedLookupLocationOfResolution_keeps)
  with b show ?thesis by simp
qed

lemma removeResolutionsOfFile_keeps:
  "removeResolutionsOfFile h f s = Ok s' \<Longrightarrow> watchesKept s s'"
  by (auto simp: removeResolutionsOfFile_def andThen_eq_Ok watchesKept_def
      dest!: removeResolutionsOfFileFromCache_keeps)

lemma invalidateResolutionOfFile_keeps:
  assumes "invalidateResolutionOfFile h f s = Ok s'"
  shows "watchesKept s s'"
proof -
  from assms obtain s1 where a: "removeResolutionsOfFile h f s = Ok s1"
    and b: "s' = invalidateResolutions h (resolvesToFile h f) s1"
    by (auto simp: invalidateResolutionOfFile_def andThen_eq_Ok)
  from invalidateResolutions_frame [of s1 h "resolvesToFile h f"] b
  have "watchesKept s1 s'"
    by (simp add: onlyInvalidationChanged_def watchesKept_def watchedDirectories_def)
  with removeResolutionsOfFile_keeps [OF a] show ?thesis by (simp add: watchesKept_def)
qed

lemma noWatchWithoutReference_finish:
  "noWatchWithoutReference (finishCachingPerDirectoryResolution s)"
  by (auto simp: noWatchWithoutReference_def finishCachingPerDirectoryResolution_def list_all_iff)

lemma returns_Ok: "returns m \<Longrightarrow> m = Ok (returned m fallback)"
  by (auto simp: returns_def returned_def split: option.splits sum.splits)

lemma removal_returns: "returns (removeResolutionsOfFile exampleHost ''/p/a.ts'' cacheAfterFirstPass)"
  by code_simp

lemma removal_watches:
  "directoryWatchesOfFailedLookups
     (returned (removeResolutionsOfFile exampleHost ''/p/a.ts'' cacheAfterFirstPass) emptyCache)
   = [(''/p'', \<lparr>watcher = ''/p'', refCount = 0\<rparr>)]"
  by code_simp

lemma first_watches:
  "directoryWatchesOfFailedLookups cacheAfterFirstPass = [(''/p'', \<lparr>watcher = ''/p'', refCount = 3\<rparr>)]"
  by code_simp

text \<open>
  C4, as the claim states it, fails: after \<^verbatim>\<open>/p/a.ts\<close> has resolved \<^verbatim>\<open>./b\<close> and \<^verbatim>\<open>./c\<close> in a
  pass, \<^verbatim>\<open>removeResolutionsOfFile("/p/a.ts")\<close> leaves the watch of \<^verbatim>\<open>/p\<close> in the map with the
  count 0.
\<close>

theorem removal_leaves_zero_count:
  "\<not> noWatchWithoutReference
        (returned (removeResolutionsOfFile exampleHost ''/p/a.ts'' cacheAfterFirstPass) emptyCache)"
  by code_simp

subsection \<open>Watch placement\<close>

lemma firstAncestor_now: "stop q \<Longrightarrow> firstAncestor gdp stop d q = Some (d, q)"
proof -
  assume s: "stop q"
  then have "stop ((gdp ^^ 0) q)" by simp
  then have "(LEAST n. stop ((gdp ^^ n) q)) = 0" by (rule Least_eq_0)
  moreover have "\<exists>n. stop ((gdp ^^ n) q)" using s by (intro exI [of _ 0]) simp
  ultimately show ?thesis by (simp add: firstAncestor_def)
qed

lemma firstAncestor_later:
  assumes "\<not> stop q"
  shows "firstAncestor gdp stop d q = firstAncestor gdp stop (gdp d) (gdp q)"
proof (cases "\<exists>n. stop ((gdp ^^ n) (gdp q))")
  case False
  have "\<not> stop ((gdp ^^ n) q)" for n
  proof (cases n)
    case 0
    with assms show ?thesis by simp
  next
    case (Suc m)
    with False show ?thesis by (simp add: funpow_swap1)
  qed
  with False show ?thesis by (simp add: firstAncestor_def)
next
  case True
  then obtain m where m: "stop ((gdp ^^ m) (gdp q))" ..
  then have ex: "stop ((gdp ^^ Suc m) q)" by (simp add: funpow_swap1)
  have "(LEAST n. stop ((gdp ^^ n) q)) = Suc (LEAST n. stop ((gdp ^^ Suc n) q))"
    by (rule Least_Suc [of "\<lambda>n. stop ((gdp ^^ n) q)" "Suc m"]) (use ex assms in simp_all)
  then have "(LEAST n. stop ((gdp ^^ n) q)) = Suc (LEAST n. stop ((gdp ^^ n) (gdp q)))"
    by (simp add: funpow_swap1)
  moreover have "\<exists>n. stop ((gdp ^^ n) q)" using ex by blast
  ultimately show ?thesis using True by (simp add: firstAncestor_def funpow_swap1)
qed

lemma walkToNodeModules_Some:
  "walkToNodeModules gdp d q = Some r \<Longrightarrow> firstAncestor gdp isNodeModulesDirectory d q = Some r"
proof (induction gdp d q r rule: walkToNodeModules.raw_induct [rotated 1, consumes 1])
  case (1 walk gdp d q r)
  show ?case
  proof (cases "isNodeModulesDirectory q")
    case True
    with "1.hyps" show ?thesis by (simp add: firstAncestor_now)
  next
    case False
    with "1.hyps" have "walk gdp (gdp d) (gdp q) = Some r" by simp
    then have "firstAncestor gdp isNodeModulesDirectory (gdp d) (gdp q) = Some r" by (rule "1.IH")
    with False show ?thesis by (simp add: firstAncestor_later)
  qed
qed

lemma walkToNodeModules_reaches:
  "isNodeModulesDirectory ((gdp ^^ n) q) \<Longrightarrow> \<exists>r. walkToNodeModules gdp d q = Some r"
proof (induction n arbitrary: d q)
  case 0
  then show ?case by (subst walkToNodeModules.simps) simp
next
  case (Suc n)
  show ?case
  proof (cases "isNodeModulesDirectory q")
    case True
    then show ?thesis by (subst walkToNodeModules.simps) simp
  next
    case False
    from Suc.prems have "isNodeModulesDirectory ((gdp ^^ n) (gdp q))" by (simp add: funpow_swap1)
    from Suc.IH [OF this, of "gdp d"] False show ?thesis
      by (subst walkToNodeModules.simps) simp
  qed
qed

lemma walkToNodeModules_eq:
  "walkToNodeModules gdp d q = firstAncestor gdp isNodeModulesDirectory d q"
proof (cases "walkToNodeModules gdp d q")
  case (Some r)
  then show ?thesis by (simp add: walkToNodeModules_Some)
next
  case None
  with walkToNodeModules_reaches [where gdp = gdp and q = q and d = d] have "\<not> (\<exists>n. isNodeModulesDirectory ((gdp ^^ n) q))"
    by auto
  with None show ?thesis by (simp add: firstAncestor_def)
qed

lemma walkToAncestorOfRoot_Some:
  "walkToAncestorOfRoot gdp root d q = Some r
   \<Longrightarrow> firstAncestor gdp (\<lambda>a. isInDirectoryPath (Some a) root \<or> gdp a = a) d q = Some r"
proof (induction gdp root d q r rule: walkToAncestorOfRoot.raw_induct [rotated 1, consumes 1])
  case (1 walk gdp root d q r)
  show ?case
  proof (cases "isInDirectoryPath (Some q) root \<or> gdp q = q")
    case True
    with "1.hyps" show ?thesis by (auto simp: firstAncestor_now Let_def split: if_splits)
  next
    case False
    with "1.hyps" have "walk gdp root (gdp d) (gdp q) = Some r" by (simp add: Let_def)
    then have "firstAncestor gdp (\<lambda>a. isInDirectoryPath (Some a) root \<or> gdp a = a) (gdp d) (gdp q) = Some r"
      by (rule "1.IH")
    with False show ?thesis by (simp add: firstAncestor_later)
  qed
qed

lemma walkToAncestorOfRoot_reaches:
  "isInDirectoryPath (Some ((gdp ^^ n) q)) root \<or> gdp ((gdp ^^ n) q) = (gdp ^^ n) q
   \<Longrightarrow> \<exists>r. walkToAncestorOfRoot gdp root d q = Some r"
proof (induction n arbitrary: d q)
  case 0
  then show ?case by (subst walkToAncestorOfRoot.simps) (auto simp: Let_def)
next
  case (Suc n)
  show ?case
  proof (cases "isInDirectoryPath (Some q) root \<or> gdp q = q")
    case True
    then show ?thesis by (subst walkToAncestorOfRoot.simps) (auto simp: Let_def)
  next
    case False
    from Suc.prems have
      "isInDirectoryPath (Some ((gdp ^^ n) (gdp q))) root \<or> gdp ((gdp ^^ n) (gdp q)) = (gdp ^^ n) (gdp q)"
      by (simp add: funpow_swap1)
    from Suc.IH [OF this, of "gdp d"] False show ?thesis
      by (subst walkToAncestorOfRoot.simps) (simp add: Let_def)
  qed
qed

lemma walkToAncestorOfRoot_eq:
  "walkToAncestorOfRoot gdp root d q
   = firstAncestor gdp (\<lambda>a. isInDirectoryPath (Some a) root \<or> gdp a = a) d q"
proof (cases "walkToAncestorOfRoot gdp root d q")
  case (Some r)
  then show ?thesis by (simp add: walkToAncestorOfRoot_Some)
next
  case None
  with walkToAncestorOfRoot_reaches [where gdp = gdp and q = q and root = root and d = d]
  have "\<not> (\<exists>n. isInDirectoryPath (Some ((gdp ^^ n) q)) root \<or> gdp ((gdp ^^ n) q) = (gdp ^^ n) q)"
    by auto
  with None show ?thesis by (simp add: firstAncestor_def)
qed

lemma getDirectoryToWatchFailedLookupLocation_eq:
  "getDirectoryToWatchFailedLookupLocation h failedLookupLocation failedLookupLocationPath
   = watchPlacement h failedLookupLocation failedLookupLocationPath"
  by (auto simp: getDirectoryToWatchFailedLookupLocation_def watchPlacement_def Let_def
      walkToNodeModules_eq walkToAncestorOfRoot_eq firstAncestor_now split: option.splits)

lemma posixDirectoryPath_last_separator:
  assumes "directorySeparator \<notin> set zs"
  shows "posixDirectoryPath (ws @ directorySeparator # zs) = (if ws = [] then ''/'' else ws)"
proof -
  have "takeWhile (\<lambda>c. c \<noteq> directorySeparator) (rev zs @ directorySeparator # rev ws)
        = rev zs @ takeWhile (\<lambda>c. c \<noteq> directorySeparator) (directorySeparator # rev ws)"
    by (rule takeWhile_append2) (use assms in auto)
  then have idx: "length (ws @ directorySeparator # zs)
      - Suc (length (takeWhile (\<lambda>c. c \<noteq> directorySeparator) (rev (ws @ directorySeparator # zs))))
      = length ws"
    by simp
  show ?thesis
  proof (cases ws)
    case Nil
    then show ?thesis
      unfolding posixDirectoryPath_def idx by (simp add: directorySeparator_def)
  next
    case (Cons w ws')
    then show ?thesis
      unfolding posixDirectoryPath_def idx by (simp add: max_def)
  qed
qed

lemma posixDirectoryPath_shrinks:
  "posixDirectoryPath a = a \<or> length (posixDirectoryPath a) < length a"
proof -
  obtain k where "posixDirectoryPath a = take k a" by (simp add: posixDirectoryPath_def)
  then show ?thesis by (cases "k < length a") simp_all
qed

lemma reaches_fixed_point:
  assumes "\<And>a. gdp a = a \<or> length (gdp a) < length a"
  shows "\<exists>n. gdp ((gdp ^^ n) q) = (gdp ^^ n) q"
proof (induction "length q" arbitrary: q rule: less_induct)
  case less
  show ?case
  proof (cases "gdp q = q")
    case True
    then have "gdp ((gdp ^^ 0) q) = (gdp ^^ 0) q" by simp
    then show ?thesis by blast
  next
    case False
    with assms [of q] have "length (gdp q) < length q" by simp
    from less [OF this] obtain n where "gdp ((gdp ^^ n) (gdp q)) = (gdp ^^ n) (gdp q)" ..
    then have "gdp ((gdp ^^ Suc n) q) = (gdp ^^ Suc n) q" by (simp add: funpow_swap1)
    then show ?thesis by blast
  qed
qed

lemma posix_reaches_node_modules:
  "\<exists>n. isNodeModulesDirectory ((posixDirectoryPath ^^ n) (xs @ ''/node_modules/'' @ ys))"
proof (induction "length ys" arbitrary: ys rule: less_induct)
  case less
  show ?case
  proof (cases "directorySeparator \<in> set ys")
    case False
    have "posixDirectoryPath ((xs @ ''/node_modules'') @ directorySeparator # ys) = xs @ ''/node_modules''"
      using posixDirectoryPath_last_separator [OF False, of "xs @ ''/node_modules''"] by simp
    then have "posixDirectoryPath (xs @ ''/node_modules/'' @ ys) = xs @ ''/node_modules''"
      by (simp add: directorySeparator_def)
    moreover have "suffix ''/node_modules'' (xs @ ''/node_modules'')"
      by (rule suffixI) simp
    ultimately have "isNodeModulesDirectory ((posixDirectoryPath ^^ 1) (xs @ ''/node_modules/'' @ ys))"
      by (simp add: isNodeModulesDirectory_def endsWith_def)
    then show ?thesis by blast
  next
    case True
    then obtain ys1 ys2 where ys: "ys = ys1 @ directorySeparator # ys2"
      and last: "directorySeparator \<notin> set ys2"
      by (auto dest: split_list_last)
    have "posixDirectoryPath ((xs @ ''/node_modules/'' @ ys1) @ directorySeparator # ys2)
          = xs @ ''/node_modules/'' @ ys1"
      using posixDirectoryPath_last_separator [OF last, of "xs @ ''/node_modules/'' @ ys1"] by simp
    then have step: "posixDirectoryPath (xs @ ''/node_modules/'' @ ys) = xs @ ''/node_modules/'' @ ys1"
      by (simp add: ys)
    have "length ys1 < length ys" by (simp add: ys)
    from less [OF this] obtain n where
      "isNodeModulesDirectory ((posixDirectoryPath ^^ n) (xs @ ''/node_modules/'' @ ys1))" ..
    with step have
      "isNodeModulesDirectory ((posixDirectoryPath ^^ Suc n) (xs @ ''/node_modules/'' @ ys))"
      by (simp add: funpow_swap1)
    then show ?thesis by blast
  qed
qed

lemma watchPlacement_posix_total:
  assumes "getDirectoryPath h = posixDirectoryPath"
  shows "watchPlacement h failedLookupLocation failedLookupLocationPath \<noteq> None"
proof -
  let ?q = "posixDirectoryPath failedLookupLocationPath"
  have nm: "\<exists>n. isNodeModulesDirectory ((posixDirectoryPath ^^ n) ?q)"
    if "isNodeModulesDirectory ?q \<or> containsString ?q ''/node_modules/''"
    using that
  proof
    assume "isNodeModulesDirectory ?q"
    then have "isNodeModulesDirectory ((posixDirectoryPath ^^ 0) ?q)" by simp
    then show ?thesis by blast
  next
    assume "containsString ?q ''/node_modules/''"
    then obtain ps ss where "?q = ps @ ''/node_modules/'' @ ss"
      by (auto simp: containsString_def sublist_def)
    with posix_reaches_node_modules [of ps ss] show ?thesis by simp
  qed
  have fp: "\<exists>n. isInDirectoryPath (Some ((posixDirectoryPath ^^ n) ?q)) root
                \<or> posixDirectoryPath ((posixDirectoryPath ^^ n) ?q) = (posixDirectoryPath ^^ n) ?q"
    for root
    using reaches_fixed_point [of posixDirectoryPath ?q, OF posixDirectoryPath_shrinks] by blast
  show ?thesis
    using nm fp
    by (auto simp: watchPlacement_def Let_def assms firstAncestor_def split: option.splits)
qed

text \<open>
  C6. The directory chosen for a failed lookup location is the one of the placement in the
  words of the specification: the project root for a path under it, otherwise the nearest
  \<^verbatim>\<open>node_modules\<close> ancestor when the directory of the path is or traverses one, otherwise the
  first directory on the way upward that is an ancestor of the project root or the file
  system root. With the directories of POSIX paths a directory is always chosen.
\<close>

theorem getDirectoryToWatchFailedLookupLocation_placement:
  "getDirectoryToWatchFailedLookupLocation h failedLookupLocation failedLookupLocationPath
   = watchPlacement h failedLookupLocation failedLookupLocationPath
   \<and> (getDirectoryPath h = posixDirectoryPath
        \<longrightarrow> watchPlacement h failedLookupLocation failedLookupLocationPath \<noteq> None)"
  by (simp add: getDirectoryToWatchFailedLookupLocation_eq watchPlacement_posix_total)

lemma placement_under_root:
  "getDirectoryToWatchFailedLookupLocation exampleHostWithRoot ''/p/q/src/b.ts'' ''/p/q/src/b.ts''
   = Some (''/p/q'', ''/p/q'')"
  by code_simp

lemma placement_node_modules:
  "getDirectoryToWatchFailedLookupLocation exampleHostWithRoot
     ''/p/node_modules/x/node_modules_y/b.ts'' ''/p/node_modules/x/node_modules_y/b.ts''
   = Some (''/p/node_modules'', ''/p/node_modules'')"
  by code_simp

lemma placement_ancestor:
  "getDirectoryToWatchFailedLookupLocation exampleHostWithRoot ''/p/r/s/b.ts'' ''/p/r/s/b.ts''
   = Some (''/p'', ''/p'')"
  by code_simp

lemma placement_file_system_root:
  "getDirectoryToWatchFailedLookupLocation exampleHostWithRoot ''/z/b.ts'' ''/z/b.ts''
   = Some (''/'', ''/'')"
  by code_simp

theorem getDirectoryToWatchFailedLookupLocation_placement_witness:
  "watchPlacement exampleHostWithRoot ''/p/q/src/b.ts'' ''/p/q/src/b.ts'' = Some (''/p/q'', ''/p/q'')
   \<and> watchPlacement exampleHostWithRoot
         ''/p/node_modules/x/node_modules_y/b.ts'' ''/p/node_modules/x/node_modules_y/b.ts''
       = Some (''/p/node_modules'', ''/p/node_modules'')
   \<and> watchPlacement exampleHostWithRoot ''/p/r/s/b.ts'' ''/p/r/s/b.ts'' = Some (''/p'', ''/p'')
   \<and> watchPlacement exampleHostWithRoot ''/z/b.ts'' ''/z/b.ts'' = Some (''/'', ''/'')
   \<and> getDirectoryPath exampleHostWithRoot = posixDirectoryPath"
  using getDirectoryToWatchFailedLookupLocation_placement
          [of exampleHostWithRoot "''/p/q/src/b.ts''" "''/p/q/src/b.ts''"]
    getDirectoryToWatchFailedLookupLocation_placement
          [of exampleHostWithRoot "''/p/node_modules/x/node_modules_y/b.ts''"
              "''/p/node_modules/x/node_modules_y/b.ts''"]
    getDirectoryToWatchFailedLookupLocation_placement
          [of exampleHostWithRoot "''/p/r/s/b.ts''" "''/p/r/s/b.ts''"]
    getDirectoryToWatchFailedLookupLocation_placement
          [of exampleHostWithRoot "''/z/b.ts''" "''/z/b.ts''"]
    placement_under_root placement_node_modules placement_ancestor placement_file_system_root
  by (simp add: exampleHostWithRoot_def exampleHost_def)

subsection \<open>The structure version\<close>

lemma forEachM_same:
  assumes "forEachM f xs s = Ok s'"
    and "\<And>x t t'. x \<in> set xs \<Longrightarrow> f x t = Ok t' \<Longrightarrow> g t' = g t"
  shows "g s' = g s"
  by (rule forEachM_preserves [OF assms(1), where P = "\<lambda>t. g t = g s"])
     (auto dest: assms(2))

lemma hostCall_version:
  "hostCall ph c p = Ok p'
   \<Longrightarrow> projectStructureVersion p' = projectStructureVersion p \<and> typingFiles p' = typingFiles p
       \<and> reportState p' = reportState p"
  by (cases c)
     (auto simp: hostCall_def projectResolveModuleNames_def projectResolveTypeReferenceDirectives_def
        fileExists_def Let_def andThen_eq_Ok reportState_def split: if_splits)

lemma detachScriptInfoFromProject_version:
  "detachScriptInfoFromProject ph f p = Ok p'
   \<Longrightarrow> projectStructureVersion p' = projectStructureVersion p \<and> typingFiles p' = typingFiles p
       \<and> reportState p' = reportState p"
  by (auto simp: detachScriptInfoFromProject_def andThen_eq_Ok reportState_def split: option.splits)

lemma enumerateInsertsAndDeletes_version:
  "enumerateInsertsAndDeletes ph new old p = Ok p'
   \<Longrightarrow> projectStructureVersion p' = projectStructureVersion p \<and> typingFiles p' = typingFiles p
       \<and> reportState p' = reportState p"
proof (induction ph new old p rule: enumerateInsertsAndDeletes.induct)
  case (1 ph p)
  then show ?case by simp
next
  case (2 ph newItem newItems p)
  then show ?case by (simp add: reportState_def)
next
  case (3 ph oldItem oldItems p)
  then show ?case by (auto simp: andThen_eq_Ok dest!: detachScriptInfoFromProject_version)
next
  case (4 ph newItem newItems oldItem oldItems p)
  then show ?case
    by (cases "compareValues ph newItem oldItem")
       (auto simp: andThen_eq_Ok reportState_def dest!: detachScriptInfoFromProject_version)
qed

lemma updateMissingFilePathsWatch_version [simp]:
  "projectStructureVersion (updateMissingFilePathsWatch prog p) = projectStructureVersion p"
  by (simp add: updateMissingFilePathsWatch_def split: prod.splits)

lemma updateGraphWorker_version:
  assumes "updateGraphWorker ph p = Ok (hasChanges, p')"
  shows "projectStructureVersion p' = projectStructureVersion p
         \<and> typingFiles p' = typingFiles p
         \<and> reportState p' = reportState p
         \<and> hasChanges = structureChanged ph p"
proof -
  obtain calls built where gp: "getProgram ph p = (calls, built)" by (cases "getProgram ph p")
  define hc where "hc = (program p = None
      \<or> (case built of SameProgram \<Rightarrow> False | NewProgram prog completely \<Rightarrow> \<not> completely))"
  from assms gp obtain p1 p6 where
    calls: "forEachM (hostCall ph) calls p = Ok p1"
    and p6: "(if hc then
               (case program (p1\<lparr>program := (case built of SameProgram \<Rightarrow> program p1
                                                | NewProgram prog completely \<Rightarrow> Some prog),
                                  resolutionCache := finishCachingPerDirectoryResolution (resolutionCache p1),
                                  hasChangedAutomaticTypeDirectiveNames := False\<rparr>) of
                  None \<Rightarrow> Throw TypeError
                | Some prog \<Rightarrow>
                    andThen
                      (forEachM
                         (\<lambda>f q. if sourceFilePath f \<in> sourceFilePath ` set (sourceFiles prog)
                                 then Ok q
                                 else detachScriptInfoFromProject ph (sourceFileName f) q)
                         (case program p of None \<Rightarrow> [] | Some old \<Rightarrow> sourceFiles old)
                         (p1\<lparr>program := (case built of SameProgram \<Rightarrow> program p1
                                                | NewProgram prog completely \<Rightarrow> Some prog),
                                  resolutionCache := finishCachingPerDirectoryResolution (resolutionCache p1),
                                  hasChangedAutomaticTypeDirectiveNames := False\<rparr>))
                      (\<lambda>p4. let p5 = updateMissingFilePathsWatch prog p4
                             in Ok (if languageServiceEnabled p5
                                    then p5\<lparr>resolutionCache :=
                                              updateTypeRootsWatch (cacheHost ph) (resolutionCache p5)\<rparr>
                                    else p5)))
             else Ok (p1\<lparr>program := (case built of SameProgram \<Rightarrow> program p1
                                                | NewProgram prog completely \<Rightarrow> Some prog),
                                  resolutionCache := finishCachingPerDirectoryResolution (resolutionCache p1),
                                  hasChangedAutomaticTypeDirectiveNames := False\<rparr>)) = Ok p6"
    and ext: "enumerateInsertsAndDeletes ph (getExternalFiles ph)
                (case externalFiles p6 of None \<Rightarrow> [] | Some fs \<Rightarrow> fs)
                (p6\<lparr>externalFiles := Some (getExternalFiles ph)\<rparr>) = Ok p'"
    and hc: "hasChanges = hc"
    unfolding updateGraphWorker_def Let_def hc_def
    by (auto simp: andThen_eq_Ok)
  let ?g = "\<lambda>q. (projectStructureVersion q, typingFiles q, reportState q)"
  have 1: "?g p1 = ?g p"
    using calls by (rule forEachM_same) (auto dest: hostCall_version)
  have 2: "?g p6 = ?g p1"
  proof (cases hc)
    case False
    with p6 show ?thesis by (auto simp: reportState_def)
  next
    case True
    with p6 obtain prog p4 where
      loop: "forEachM
               (\<lambda>f q. if sourceFilePath f \<in> sourceFilePath ` set (sourceFiles prog)
                       then Ok q
                       else detachScriptInfoFromProject ph (sourceFileName f) q)
               (case program p of None \<Rightarrow> [] | Some old \<Rightarrow> sourceFiles old)
               (p1\<lparr>program := (case built of SameProgram \<Rightarrow> program p1
                                      | NewProgram prog completely \<Rightarrow> Some prog),
                    resolutionCache := finishCachingPerDirectoryResolution (resolutionCache p1),
                    hasChangedAutomaticTypeDirectiveNames := False\<rparr>) = Ok p4"
      and fin: "p6 = (let p5 = updateMissingFilePathsWatch prog p4
                      in if languageServiceEnabled p5
                         then p5\<lparr>resolutionCache :=
                                   updateTypeRootsWatch (cacheHost ph) (resolutionCache p5)\<rparr>
                         else p5)"
      by (auto simp: andThen_eq_Ok Let_def split: option.splits)
    have "?g p4 = ?g (p1\<lparr>program := (case built of SameProgram \<Rightarrow> program p1
                                      | NewProgram prog completely \<Rightarrow> Some prog),
                    resolutionCache := finishCachingPerDirectoryResolution (resolutionCache p1),
                    hasChangedAutomaticTypeDirectiveNames := False\<rparr>)"
      using loop
      by (rule forEachM_same) (auto split: if_splits dest: detachScriptInfoFromProject_version)
    then show ?thesis
      by (simp add: fin Let_def updateMissingFilePathsWatch_def reportState_def split: prod.splits)
  qed
  have 3: "?g p' = ?g p6"
    using enumerateInsertsAndDeletes_version [OF ext] by (simp add: reportState_def)
  have "hc = structureChanged ph p"
    by (auto simp: hc_def structureChanged_def gp split: builder_result.splits)
  with 1 2 3 hc show ?thesis by simp
qed

lemma fold_removeCachedUnresolvedImports_version [simp]:
  "projectStructureVersion (fold removeCachedUnresolvedImports fs p) = projectStructureVersion p"
  "typingFiles (fold removeCachedUnresolvedImports fs p) = typingFiles p"
  "program (fold removeCachedUnresolvedImports fs p) = program p"
  "languageServiceEnabled (fold removeCachedUnresolvedImports fs p) = languageServiceEnabled p"
  "reportState (fold removeCachedUnresolvedImports fs p) = reportState p"
  by (induction fs arbitrary: p) (simp_all add: removeCachedUnresolvedImports_def reportState_def)

lemma extractUnresolvedImportsFromSourceFile_version:
  "extractUnresolvedImportsFromSourceFile ph f (r, p) = (r', p')
   \<Longrightarrow> projectStructureVersion p' = projectStructureVersion p \<and> typingFiles p' = typingFiles p
       \<and> reportState p' = reportState p"
  by (auto simp: extractUnresolvedImportsFromSourceFile_def Let_def reportState_def
      split: option.splits)

lemma fold_extractUnresolvedImportsFromSourceFile_version:
  "fold (extractUnresolvedImportsFromSourceFile ph) fs (r, p) = (r', p')
   \<Longrightarrow> projectStructureVersion p' = projectStructureVersion p \<and> typingFiles p' = typingFiles p
       \<and> reportState p' = reportState p"
proof (induction fs arbitrary: r p)
  case Nil
  then show ?case by simp
next
  case (Cons f fs)
  obtain r1 p1 where step: "extractUnresolvedImportsFromSourceFile ph f (r, p) = (r1, p1)"
    by (cases "extractUnresolvedImportsFromSourceFile ph f (r, p)")
  with Cons.prems have "fold (extractUnresolvedImportsFromSourceFile ph) fs (r1, p1) = (r', p')"
    by simp
  from Cons.IH [OF this] extractUnresolvedImportsFromSourceFile_version [OF step]
  show ?case by simp
qed

lemma updateUnresolvedImportsAndTypings_version:
  assumes "updateUnresolvedImportsAndTypings ph hasChanges p1 = Ok (typingsChanged, p5)"
  shows "projectStructureVersion p5 = projectStructureVersion p1"
    and "reportState p5 = reportState p1"
    and "typingsChanged \<Longrightarrow> typingFiles p5 \<noteq> typingFiles p1"
    and "\<not> typingsChanged \<Longrightarrow> typingFiles p5 = typingFiles p1"
proof -
  obtain collected s2 where
    fr: "finishRecordingFilesWithChangedResolutions (resolutionCache p1) = (collected, s2)"
    by (cases "finishRecordingFilesWithChangedResolutions (resolutionCache p1)")
  define changedFiles where "changedFiles = (case collected of None \<Rightarrow> [] | Some fs \<Rightarrow> fs)"
  define p2 where "p2 = fold removeCachedUnresolvedImports changedFiles (p1\<lparr>resolutionCache := s2\<rparr>)"
  have v2: "projectStructureVersion p2 = projectStructureVersion p1" "typingFiles p2 = typingFiles p1"
    "reportState p2 = reportState p1"
    by (simp_all add: p2_def) (simp add: reportState_def)
  from assms fr have mid:
    "(if languageServiceEnabled p2 then
        andThen
          (if hasChanges \<or> changedFiles \<noteq> [] then
             (case program p2 of
                None \<Rightarrow> Throw TypeError
              | Some prog \<Rightarrow>
                  (case fold (extractUnresolvedImportsFromSourceFile ph)
                          (sourceFiles prog) ([], p2) of
                     (result, p3) \<Rightarrow>
                       Ok (p3\<lparr>lastCachedUnresolvedImportsList :=
                                Some (toDeduplicatedSortedArray ph result)\<rparr>)))
           else Ok p2)
          (\<lambda>p4. Ok (setTypings
                       (getTypingsForProject ph p4
                          (lastCachedUnresolvedImportsList p4) hasChanges) p4))
      else Ok (False, p2\<lparr>lastCachedUnresolvedImportsList := None\<rparr>))
     = Ok (typingsChanged, p5)"
    unfolding updateUnresolvedImportsAndTypings_def Let_def changedFiles_def p2_def
    by simp
  have "projectStructureVersion p5 = projectStructureVersion p1
        \<and> reportState p5 = reportState p1
        \<and> (typingsChanged \<longrightarrow> typingFiles p5 \<noteq> typingFiles p1)
        \<and> (\<not> typingsChanged \<longrightarrow> typingFiles p5 = typingFiles p1)"
  proof (cases "languageServiceEnabled p2")
    case False
    with mid v2 show ?thesis by (auto simp: reportState_def)
  next
    case True
    with mid obtain p4 where
      p4: "(if hasChanges \<or> changedFiles \<noteq> [] then
              (case program p2 of
                 None \<Rightarrow> Throw TypeError
               | Some prog \<Rightarrow>
                   (case fold (extractUnresolvedImportsFromSourceFile ph)
                           (sourceFiles prog) ([], p2) of
                      (result, p3) \<Rightarrow>
                        Ok (p3\<lparr>lastCachedUnresolvedImportsList :=
                                 Some (toDeduplicatedSortedArray ph result)\<rparr>)))
            else Ok p2) = Ok p4"
      and st: "setTypings (getTypingsForProject ph p4 (lastCachedUnresolvedImportsList p4) hasChanges) p4
               = (typingsChanged, p5)"
      by (auto simp: andThen_eq_Ok)
    from p4 have v4: "projectStructureVersion p4 = projectStructureVersion p1"
      "typingFiles p4 = typingFiles p1" "reportState p4 = reportState p1"
      using v2
      by (auto simp: reportState_def split: if_splits option.splits prod.splits
          dest!: fold_extractUnresolvedImportsFromSourceFile_version)
    from st v4 show ?thesis
      by (auto simp: setTypings_def markAsDirty_def reportState_def split: if_splits)
  qed
  then show "projectStructureVersion p5 = projectStructureVersion p1"
    and "reportState p5 = reportState p1"
    and "typingsChanged \<Longrightarrow> typingFiles p5 \<noteq> typingFiles p1"
    and "\<not> typingsChanged \<Longrightarrow> typingFiles p5 = typingFiles p1"
    by simp_all
qed

lemma andThen_pair_Ok:
  assumes "andThen m (\<lambda>(a, b). f a b) = Ok y"
  obtains a b where "m = Ok (a, b)" and "f a b = Ok y"
  using assms by (auto simp: andThen_eq_Ok)

lemma updateGraph_version:
  assumes "updateGraph ph p = Ok (unchanged, p')"
  shows "projectStructureVersion p' = projectStructureVersion p + (if unchanged then 0 else 1)"
    and "reportState p' = reportState p"
    and "(\<not> unchanged)
         = (structureChanged ph (stateOfFirstPass p)
            \<or> (\<exists>p5. stateOfSecondPass ph p = Some p5 \<and> structureChanged ph p5))"
    and "stateOfSecondPass ph p = Some p5 \<Longrightarrow> typingFiles p5 \<noteq> typingFiles p"
proof -
  obtain hasInvalidated s1 where
    cr: "createHasInvalidatedResolution (startRecordingFilesWithChangedResolutions (resolutionCache p))
         = (hasInvalidated, s1)"
    by (cases "createHasInvalidatedResolution
                 (startRecordingFilesWithChangedResolutions (resolutionCache p))")
  let ?q1 = "p\<lparr>hasInvalidatedResolution := hasInvalidated, resolutionCache := s1\<rparr>"
  have q1: "stateOfFirstPass p = ?q1" by (simp add: stateOfFirstPass_def cr)
  from assms have run: "andThen (updateGraphWorker ph ?q1)
                   (\<lambda>(hasChanges, p1).
                      andThen (updateUnresolvedImportsAndTypings ph hasChanges p1)
                        (\<lambda>(typingsChanged, p5).
                           andThen (if typingsChanged
                                    then andThen (updateGraphWorker ph p5) (\<lambda>(hasChanges2, p6). Ok (hasChanges2 \<or> hasChanges, p6))
                                    else Ok (hasChanges, p5))
                             (\<lambda>(hasChanges3, p7). Ok (\<not> hasChanges3,
                                if hasChanges3 then p7\<lparr>projectStructureVersion := projectStructureVersion p7 + 1\<rparr> else p7))))
           = Ok (unchanged, p')"
    unfolding updateGraph_def cr prod.case .
  from run obtain hasChanges p1 where
    w1: "updateGraphWorker ph ?q1 = Ok (hasChanges, p1)"
    and r1: "andThen (updateUnresolvedImportsAndTypings ph hasChanges p1)
                        (\<lambda>(typingsChanged, p5).
                           andThen (if typingsChanged
                                    then andThen (updateGraphWorker ph p5) (\<lambda>(hasChanges2, p6). Ok (hasChanges2 \<or> hasChanges, p6))
                                    else Ok (hasChanges, p5))
                             (\<lambda>(hasChanges3, p7). Ok (\<not> hasChanges3,
                                if hasChanges3 then p7\<lparr>projectStructureVersion := projectStructureVersion p7 + 1\<rparr> else p7)))
           = Ok (unchanged, p')"
    by (rule andThen_pair_Ok)
  from r1 obtain typingsChanged q5 where
    u: "updateUnresolvedImportsAndTypings ph hasChanges p1 = Ok (typingsChanged, q5)"
    and r2: "andThen (if typingsChanged
                                    then andThen (updateGraphWorker ph q5) (\<lambda>(hasChanges2, p6). Ok (hasChanges2 \<or> hasChanges, p6))
                                    else Ok (hasChanges, q5))
                             (\<lambda>(hasChanges3, p7). Ok (\<not> hasChanges3,
                                if hasChanges3 then p7\<lparr>projectStructureVersion := projectStructureVersion p7 + 1\<rparr> else p7))
           = Ok (unchanged, p')"
    by (rule andThen_pair_Ok)
  from r2 obtain hasChanges3 p7 where
    mid: "(if typingsChanged
               then andThen (updateGraphWorker ph q5)
                      (\<lambda>(hasChanges2, p6). Ok (hasChanges2 \<or> hasChanges, p6))
               else Ok (hasChanges, q5)) = Ok (hasChanges3, p7)"
    and r3: "Ok (\<not> hasChanges3,
                 if hasChanges3 then p7\<lparr>projectStructureVersion := projectStructureVersion p7 + 1\<rparr> else p7)
             = Ok (unchanged, p')"
    by (rule andThen_pair_Ok)
  from r3 have fin: "unchanged = (\<not> hasChanges3)"
      "p' = (if hasChanges3
             then p7\<lparr>projectStructureVersion := projectStructureVersion p7 + 1\<rparr> else p7)"
    by auto
  from updateGraphWorker_version [OF w1]
  have v1: "projectStructureVersion p1 = projectStructureVersion p" "typingFiles p1 = typingFiles p"
    "reportState p1 = reportState p"
    and hc1: "hasChanges = structureChanged ph (stateOfFirstPass p)"
    by (simp_all add: reportState_def q1)
  note v5 = updateUnresolvedImportsAndTypings_version [OF u]
  have second: "stateOfSecondPass ph p = (if typingsChanged then Some q5 else None)"
    by (simp add: stateOfSecondPass_def q1 w1 u)
  have main: "projectStructureVersion p7 = projectStructureVersion p
      \<and> reportState p7 = reportState p
      \<and> hasChanges3 = (hasChanges \<or> (typingsChanged \<and> structureChanged ph q5))"
  proof (cases typingsChanged)
    case False
    with mid have "hasChanges3 = hasChanges" "p7 = q5" by auto
    with v1 v5 False show ?thesis by simp
  next
    case True
    with mid obtain hasChanges2 where
      w2: "updateGraphWorker ph q5 = Ok (hasChanges2, p7)"
      and h3: "hasChanges3 = (hasChanges2 \<or> hasChanges)"
      by (auto simp: andThen_eq_Ok)
    from updateGraphWorker_version [OF w2] v1 v5
    have "projectStructureVersion p7 = projectStructureVersion p"
      and "reportState p7 = reportState p"
      and "hasChanges2 = structureChanged ph q5" by simp_all
    with h3 True show ?thesis by auto
  qed
  from main fin show "projectStructureVersion p' = projectStructureVersion p + (if unchanged then 0 else 1)"
    by simp
  from main fin show "reportState p' = reportState p"
    by (simp add: reportState_def)
  from main fin hc1 second
  show "(\<not> unchanged)
        = (structureChanged ph (stateOfFirstPass p)
           \<or> (\<exists>p5. stateOfSecondPass ph p = Some p5 \<and> structureChanged ph p5))"
    by auto
  from second v5(3) v1(2)
  show "typingFiles p5 \<noteq> typingFiles p" if "stateOfSecondPass ph p = Some p5"
    using that by (auto split: if_splits)
qed

lemma changesSinceVersion_version [simp]:
  "projectStructureVersion (snd (changesSinceVersion ph v p)) = projectStructureVersion p"
  by (simp add: changesSinceVersion_def Let_def split: option.splits)














lemma firstReport_returns: "returns (getChangesSinceVersion exampleProjectHost None emptyProject)"
  by code_simp

lemma firstReport_eq:
  "getChangesSinceVersion exampleProjectHost None emptyProject = Ok (fst firstReport, snd firstReport)"
  using returns_Ok [OF firstReport_returns] by (simp add: firstReport_def)





subsection \<open>Files known to be missing\<close>

text \<open>
  C10. For a path that has an entry in the map of missing-file watches, \<^verbatim>\<open>fileExists\<close> answers
  false and leaves the project as it is: the host is not asked, whatever is on its disk. Once
  the callback of the watch has run for the creation of the file, the entry is gone and the
  answer is the one of the host.
\<close>

theorem fileExists_watched_missing_file:
  assumes "isWatchedMissingFile p (toPath (cacheHost ph) file)"
  shows "fileExists ph file p = (False, p)
         \<and> (\<exists>p'. missingFileWatcherCallback (toPath (cacheHost ph) file) True p = Ok p'
                \<and> \<not> isWatchedMissingFile p' (toPath (cacheHost ph) file)
                \<and> fst (fileExists ph file p') = directoryStructureHostFileExists ph file
                \<and> FileExistsOnHost file \<in> set (projectLog (snd (fileExists ph file p'))))"
proof -
  let ?path = "toPath (cacheHost ph) file"
  from assms obtain m where m: "missingFilesMap p = Some m" "map_of m ?path \<noteq> None"
    by (auto simp: isWatchedMissingFile_def split: option.splits)
  define p' where
    "p' = p\<lparr>missingFilesMap := Some (AList.delete ?path m),
            projectLog := projectLog p @ [CloseMissingFileWatcher ?path, DelayUpdateProjectGraph]\<rparr>"
  have callback: "missingFileWatcherCallback ?path True p = Ok p'"
    using m by (simp add: missingFileWatcherCallback_def p'_def)
  have gone: "\<not> isWatchedMissingFile p' ?path"
    by (simp add: isWatchedMissingFile_def p'_def delete_conv')
  then have asked: "fileExists ph file p'
      = (directoryStructureHostFileExists ph file, p'\<lparr>projectLog := projectLog p' @ [FileExistsOnHost file]\<rparr>)"
    by (simp add: fileExists_def)
  have "fileExists ph file p = (False, p)"
    using assms by (simp add: fileExists_def)
  with callback gone asked show ?thesis by auto
qed

lemma firstUpdate_missing: "missingFilesMap projectAfterFirstUpdate = Some [(''/p/m.ts'', ''/p/m.ts'')]"
  by code_simp

theorem fileExists_watched_missing_file_witness:
  "isWatchedMissingFile projectAfterFirstUpdate (toPath (cacheHost exampleProjectHost) ''/p/m.ts'')
   \<and> directoryStructureHostFileExists exampleProjectHost ''/p/m.ts''
   \<and> fileExists exampleProjectHost ''/p/m.ts'' projectAfterFirstUpdate = (False, projectAfterFirstUpdate)"
  using fileExists_watched_missing_file [of projectAfterFirstUpdate exampleProjectHost "''/p/m.ts''"]
    firstUpdate_missing
  by (simp add: isWatchedMissingFile_def exampleProjectHost_def exampleHost_def)

subsection \<open>Changes since a version\<close>

lemma set_foldl_setAdd: "set (foldl (\<lambda>acc x. setAdd x acc) acc xs) = set acc \<union> set xs"
  by (induction xs arbitrary: acc) (auto simp: setAdd_def)

lemma set_arrayToSet [simp]: "set (arrayToSet xs) = set xs"
  by (simp add: arrayToSet_def set_foldl_setAdd)

text \<open>What the report says and what the project records, after the update of the graph.\<close>

lemma changesSinceVersion_report:
  assumes "changesSinceVersion ph lastKnownVersion p1 = (reported, p')"
  shows "version (info reported) = projectStructureVersion p1"
    and "projectStructureVersion p' = projectStructureVersion p1"
    and "lastReportedVersion p' = projectStructureVersion p1"
    and "updatedFileNames p' = None"
    and "lastReportedFileNames p' \<noteq> None"
    and "reportedFiles p' = filesKnownAfter (reportedFiles p1) reported"
    and "if lastReportedFileNames p1 \<noteq> None \<and> lastKnownVersion = Some (lastReportedVersion p1)
         then files reported = None
              \<and> (if projectStructureVersion p1 = lastReportedVersion p1 \<and> updatedFileNames p1 = None
                  then changes reported = None
                  else \<exists>delta. changes reported = Some delta
                         \<and> set (added delta) = set (currentFileNames ph p1) - reportedFiles p1
                         \<and> set (removed delta) = reportedFiles p1 - set (currentFileNames ph p1)
                         \<and> updated delta = (case updatedFileNames p1 of None \<Rightarrow> [] | Some fs \<Rightarrow> fs))
         else files reported = Some (currentFileNames ph p1) \<and> changes reported = None"
proof -
  have getFileNames_same: "getFileNames ph (p1\<lparr>updatedFileNames := None\<rparr>) = getFileNames ph p1"
    by (auto simp: getFileNames_def split: option.splits)
  consider (full) "\<not> (lastReportedFileNames p1 \<noteq> None \<and> lastKnownVersion = Some (lastReportedVersion p1))"
    | (same) "lastReportedFileNames p1 \<noteq> None" "lastKnownVersion = Some (lastReportedVersion p1)"
        "projectStructureVersion p1 = lastReportedVersion p1 \<and> updatedFileNames p1 = None"
    | (delta) "lastReportedFileNames p1 \<noteq> None" "lastKnownVersion = Some (lastReportedVersion p1)"
        "\<not> (projectStructureVersion p1 = lastReportedVersion p1 \<and> updatedFileNames p1 = None)"
    by blast
  then have "version (info reported) = projectStructureVersion p1
    \<and> projectStructureVersion p' = projectStructureVersion p1
    \<and> lastReportedVersion p' = projectStructureVersion p1
    \<and> updatedFileNames p' = None
    \<and> lastReportedFileNames p' \<noteq> None
    \<and> reportedFiles p' = filesKnownAfter (reportedFiles p1) reported
    \<and> (if lastReportedFileNames p1 \<noteq> None \<and> lastKnownVersion = Some (lastReportedVersion p1)
         then files reported = None
              \<and> (if projectStructureVersion p1 = lastReportedVersion p1 \<and> updatedFileNames p1 = None
                  then changes reported = None
                  else \<exists>delta. changes reported = Some delta
                         \<and> set (added delta) = set (currentFileNames ph p1) - reportedFiles p1
                         \<and> set (removed delta) = reportedFiles p1 - set (currentFileNames ph p1)
                         \<and> updated delta = (case updatedFileNames p1 of None \<Rightarrow> [] | Some fs \<Rightarrow> fs))
         else files reported = Some (currentFileNames ph p1) \<and> changes reported = None)"
  proof cases
    case full
    with assms have
      "reported = \<lparr>info = \<lparr>infoProjectName = projectName ph, version = projectStructureVersion p1,
                          infoIsInferred = isInferred ph,
                          languageServiceDisabled = (\<not> languageServiceEnabled p1)\<rparr>,
                   files = Some (currentFileNames ph p1), changes = None,
                   projectErrors = getGlobalProjectErrors ph\<rparr>"
      "p' = p1\<lparr>updatedFileNames := None,
                lastReportedFileNames := Some (arrayToSet (currentFileNames ph p1)),
                lastReportedVersion := projectStructureVersion p1\<rparr>"
      by (auto simp: changesSinceVersion_def Let_def currentFileNames_def getFileNames_same
          split: option.splits if_splits)
    with full show ?thesis
      by (simp add: reportedFiles_def filesKnownAfter_def)
  next
    case same
    with assms have
      "reported = \<lparr>info = \<lparr>infoProjectName = projectName ph, version = projectStructureVersion p1,
                          infoIsInferred = isInferred ph,
                          languageServiceDisabled = (\<not> languageServiceEnabled p1)\<rparr>,
                   files = None, changes = None,
                   projectErrors = getGlobalProjectErrors ph\<rparr>"
      "p' = p1\<lparr>updatedFileNames := None\<rparr>"
      by (auto simp: changesSinceVersion_def Let_def split: option.splits if_splits)
    with same show ?thesis
      by (auto simp: reportedFiles_def filesKnownAfter_def)
  next
    case delta
    then obtain lastReported where l: "lastReportedFileNames p1 = Some lastReported" by auto
    with delta assms have
      r: "reported = \<lparr>info = \<lparr>infoProjectName = projectName ph, version = projectStructureVersion p1,
                          infoIsInferred = isInferred ph,
                          languageServiceDisabled = (\<not> languageServiceEnabled p1)\<rparr>,
                   files = None,
                   changes = Some \<lparr>added = filter (\<lambda>f. f \<notin> set lastReported)
                                              (arrayToSet (currentFileNames ph p1)),
                                   removed = filter (\<lambda>f. f \<notin> set (arrayToSet (currentFileNames ph p1)))
                                               lastReported,
                                   updated = (case updatedFileNames p1 of None \<Rightarrow> [] | Some fs \<Rightarrow> fs)\<rparr>,
                   projectErrors = getGlobalProjectErrors ph\<rparr>"
      and p': "p' = p1\<lparr>updatedFileNames := None,
                lastReportedFileNames := Some (arrayToSet (currentFileNames ph p1)),
                lastReportedVersion := projectStructureVersion p1\<rparr>"
      by (auto simp: changesSinceVersion_def Let_def currentFileNames_def getFileNames_same
          split: if_splits)
    have known: "reportedFiles p' = filesKnownAfter (reportedFiles p1) reported"
      unfolding r p' by (auto simp: reportedFiles_def filesKnownAfter_def l)
    have d: "\<exists>delta. changes reported = Some delta
                         \<and> set (added delta) = set (currentFileNames ph p1) - reportedFiles p1
                         \<and> set (removed delta) = reportedFiles p1 - set (currentFileNames ph p1)
                         \<and> updated delta = (case updatedFileNames p1 of None \<Rightarrow> [] | Some fs \<Rightarrow> fs)"
      unfolding r by (auto simp: reportedFiles_def l)
    from delta known d show ?thesis by (simp add: r p')
  qed
  then show "version (info reported) = projectStructureVersion p1"
    and "projectStructureVersion p' = projectStructureVersion p1"
    and "lastReportedVersion p' = projectStructureVersion p1"
    and "updatedFileNames p' = None"
    and "lastReportedFileNames p' \<noteq> None"
    and "reportedFiles p' = filesKnownAfter (reportedFiles p1) reported"
    and "if lastReportedFileNames p1 \<noteq> None \<and> lastKnownVersion = Some (lastReportedVersion p1)
         then files reported = None
              \<and> (if projectStructureVersion p1 = lastReportedVersion p1 \<and> updatedFileNames p1 = None
                  then changes reported = None
                  else \<exists>delta. changes reported = Some delta
                         \<and> set (added delta) = set (currentFileNames ph p1) - reportedFiles p1
                         \<and> set (removed delta) = reportedFiles p1 - set (currentFileNames ph p1)
                         \<and> updated delta = (case updatedFileNames p1 of None \<Rightarrow> [] | Some fs \<Rightarrow> fs))
         else files reported = Some (currentFileNames ph p1) \<and> changes reported = None"
    by blast+
qed


text \<open>
  C8, as the code has it. A call of \<^verbatim>\<open>getChangesSinceVersion(lastVersion)\<close> updates the graph
  and reports the structure version after it, which is that before the call plus 1 when a
  pass of \<^verbatim>\<open>updateGraphWorker\<close> finds the structure changed. When a report has been made and
  \<^verbatim>\<open>lastVersion\<close> is the version of the last report, it reports no file list, and no delta
  either when the structure version is still that version and no file update is registered;
  otherwise the delta against the recorded set of files: added are the current files that are
  not recorded, removed the recorded files that are not current, updated the registered
  updates. In every other case (no version or another version given, no report before) it
  reports the full list of the current files and no delta. After the call the recorded
  version is the reported one, no update is registered, and the recorded set of files is the
  one that the caller knows from the report: the full list, or the recorded set with the
  delta applied. So a following call, asked for the reported version, computes its delta
  against the files that this call reported; it reports the same version and no changes
  exactly when no pass of its \<^verbatim>\<open>updateGraphWorker\<close> finds the structure changed.
\<close>

theorem getChangesSinceVersion_report:
  assumes "getChangesSinceVersion ph lastKnownVersion p = Ok (reported, p')"
  shows "(\<exists>unchanged p1.
           updateGraph ph p = Ok (unchanged, p1)
           \<and> version (info reported)
               = projectStructureVersion p + (if structureChangedInAPass ph p then 1 else 0)
           \<and> version (info reported) = projectStructureVersion p1
           \<and> projectStructureVersion p' = version (info reported)
           \<and> lastReportedVersion p' = version (info reported)
           \<and> updatedFileNames p' = None
           \<and> lastReportedFileNames p' \<noteq> None
           \<and> reportedFiles p' = filesKnownAfter (reportedFiles p) reported
           \<and> (if lastReportedFileNames p \<noteq> None \<and> lastKnownVersion = Some (lastReportedVersion p)
               then files reported = None
                    \<and> (if version (info reported) = lastReportedVersion p \<and> updatedFileNames p = None
                        then changes reported = None
                        else \<exists>delta. changes reported = Some delta
                               \<and> set (added delta) = set (currentFileNames ph p1) - reportedFiles p
                               \<and> set (removed delta) = reportedFiles p - set (currentFileNames ph p1)
                               \<and> updated delta
                                   = (case updatedFileNames p of None \<Rightarrow> [] | Some fs \<Rightarrow> fs))
               else files reported = Some (currentFileNames ph p1) \<and> changes reported = None))
         \<and> (\<forall>ph2 lastKnownVersion2 reported2 p2.
               getChangesSinceVersion ph2 lastKnownVersion2 p' = Ok (reported2, p2)
               \<longrightarrow> (\<exists>unchanged2 q.
                      updateGraph ph2 p' = Ok (unchanged2, q)
                      \<and> version (info reported2)
                          = version (info reported)
                            + (if structureChangedInAPass ph2 p' then 1 else 0)
                      \<and> (if lastKnownVersion2 = Some (version (info reported))
                          then files reported2 = None
                               \<and> (if structureChangedInAPass ph2 p'
                                   then \<exists>delta. changes reported2 = Some delta
                                          \<and> set (added delta)
                                              = set (currentFileNames ph2 q)
                                                - filesKnownAfter (reportedFiles p) reported
                                          \<and> set (removed delta)
                                              = filesKnownAfter (reportedFiles p) reported
                                                - set (currentFileNames ph2 q)
                                          \<and> updated delta = []
                                   else changes reported2 = None)
                          else files reported2 = Some (currentFileNames ph2 q)
                               \<and> changes reported2 = None)))"
proof -
  have one: "\<exists>unchanged p1.
           updateGraph ph p = Ok (unchanged, p1)
           \<and> version (info reported)
               = projectStructureVersion p + (if structureChangedInAPass ph p then 1 else 0)
           \<and> version (info reported) = projectStructureVersion p1
           \<and> projectStructureVersion p' = version (info reported)
           \<and> lastReportedVersion p' = version (info reported)
           \<and> updatedFileNames p' = None
           \<and> lastReportedFileNames p' \<noteq> None
           \<and> reportedFiles p' = filesKnownAfter (reportedFiles p) reported
           \<and> (if lastReportedFileNames p \<noteq> None \<and> lastKnownVersion = Some (lastReportedVersion p)
               then files reported = None
                    \<and> (if version (info reported) = lastReportedVersion p \<and> updatedFileNames p = None
                        then changes reported = None
                        else \<exists>delta. changes reported = Some delta
                               \<and> set (added delta) = set (currentFileNames ph p1) - reportedFiles p
                               \<and> set (removed delta) = reportedFiles p - set (currentFileNames ph p1)
                               \<and> updated delta
                                   = (case updatedFileNames p of None \<Rightarrow> [] | Some fs \<Rightarrow> fs))
               else files reported = Some (currentFileNames ph p1) \<and> changes reported = None)"
    if call: "getChangesSinceVersion ph lastKnownVersion p = Ok (reported, p')"
    for ph lastKnownVersion p reported p'
  proof -
    from call obtain unchanged p1 where u: "updateGraph ph p = Ok (unchanged, p1)"
      and r: "changesSinceVersion ph lastKnownVersion p1 = (reported, p')"
      unfolding getChangesSinceVersion_def by (rule andThen_pair_Ok) simp
    from updateGraph_version(2) [OF u]
    have same: "lastReportedVersion p1 = lastReportedVersion p"
      "lastReportedFileNames p1 = lastReportedFileNames p"
      "updatedFileNames p1 = updatedFileNames p"
      by (simp_all add: reportState_def)
    then have files: "reportedFiles p1 = reportedFiles p" by (simp add: reportedFiles_def)
    have "(\<not> unchanged) = structureChangedInAPass ph p"
      unfolding structureChangedInAPass_def updateGraph_version(3) [OF u]
      by (simp split: option.splits)
    with updateGraph_version(1) [OF u]
    have v: "projectStructureVersion p1
             = projectStructureVersion p + (if structureChangedInAPass ph p then 1 else 0)"
      by auto
    note rep = changesSinceVersion_report [OF r, unfolded same files]
    from rep(1) v have 1: "version (info reported)
               = projectStructureVersion p + (if structureChangedInAPass ph p then 1 else 0)"
      by simp
    from rep(7) have 7: "if lastReportedFileNames p \<noteq> None \<and> lastKnownVersion = Some (lastReportedVersion p)
               then files reported = None
                    \<and> (if version (info reported) = lastReportedVersion p \<and> updatedFileNames p = None
                        then changes reported = None
                        else \<exists>delta. changes reported = Some delta
                               \<and> set (added delta) = set (currentFileNames ph p1) - reportedFiles p
                               \<and> set (removed delta) = reportedFiles p - set (currentFileNames ph p1)
                               \<and> updated delta
                                   = (case updatedFileNames p of None \<Rightarrow> [] | Some fs \<Rightarrow> fs))
               else files reported = Some (currentFileNames ph p1) \<and> changes reported = None"
      unfolding rep(1) .
    from u 1 rep(1,2,3,4,5,6) 7 show ?thesis
      by (intro exI [of _ unchanged] exI [of _ p1]) simp
  qed
  from one [OF assms] obtain unchanged p1 where
    first: "updateGraph ph p = Ok (unchanged, p1)"
      "projectStructureVersion p' = version (info reported)"
      "lastReportedVersion p' = version (info reported)"
      "updatedFileNames p' = None"
      "lastReportedFileNames p' \<noteq> None"
      "reportedFiles p' = filesKnownAfter (reportedFiles p) reported"
    by blast
  have two: "\<exists>unchanged2 q.
                updateGraph ph2 p' = Ok (unchanged2, q)
                \<and> version (info reported2)
                    = version (info reported) + (if structureChangedInAPass ph2 p' then 1 else 0)
                \<and> (if lastKnownVersion2 = Some (version (info reported))
                    then files reported2 = None
                         \<and> (if structureChangedInAPass ph2 p'
                             then \<exists>delta. changes reported2 = Some delta
                                    \<and> set (added delta)
                                        = set (currentFileNames ph2 q)
                                          - filesKnownAfter (reportedFiles p) reported
                                    \<and> set (removed delta)
                                        = filesKnownAfter (reportedFiles p) reported
                                          - set (currentFileNames ph2 q)
                                    \<and> updated delta = []
                             else changes reported2 = None)
                    else files reported2 = Some (currentFileNames ph2 q)
                         \<and> changes reported2 = None)"
    if call2: "getChangesSinceVersion ph2 lastKnownVersion2 p' = Ok (reported2, p2)"
    for ph2 lastKnownVersion2 reported2 p2
  proof -
    from one [OF call2] obtain unchanged2 q where
      u2: "updateGraph ph2 p' = Ok (unchanged2, q)"
      and v2: "version (info reported2)
               = projectStructureVersion p' + (if structureChangedInAPass ph2 p' then 1 else 0)"
      and c2: "if lastReportedFileNames p' \<noteq> None \<and> lastKnownVersion2 = Some (lastReportedVersion p')
               then files reported2 = None
                    \<and> (if version (info reported2) = lastReportedVersion p' \<and> updatedFileNames p' = None
                        then changes reported2 = None
                        else \<exists>delta. changes reported2 = Some delta
                               \<and> set (added delta) = set (currentFileNames ph2 q) - reportedFiles p'
                               \<and> set (removed delta) = reportedFiles p' - set (currentFileNames ph2 q)
                               \<and> updated delta
                                   = (case updatedFileNames p' of None \<Rightarrow> [] | Some fs \<Rightarrow> fs))
               else files reported2 = Some (currentFileNames ph2 q) \<and> changes reported2 = None"
      by blast
    from v2 first(2) have v: "version (info reported2)
        = version (info reported) + (if structureChangedInAPass ph2 p' then 1 else 0)"
      by simp
    from c2 v have c: "if lastKnownVersion2 = Some (version (info reported))
                    then files reported2 = None
                         \<and> (if structureChangedInAPass ph2 p'
                             then \<exists>delta. changes reported2 = Some delta
                                    \<and> set (added delta)
                                        = set (currentFileNames ph2 q)
                                          - filesKnownAfter (reportedFiles p) reported
                                    \<and> set (removed delta)
                                        = filesKnownAfter (reportedFiles p) reported
                                          - set (currentFileNames ph2 q)
                                    \<and> updated delta = []
                             else changes reported2 = None)
                    else files reported2 = Some (currentFileNames ph2 q)
                         \<and> changes reported2 = None"
      unfolding first(3,4,6) using first(5) by (simp split: if_splits)
    from u2 v c show ?thesis by blast
  qed
  from one [OF assms] two show ?thesis by blast
qed


lemma firstReport_values:
  "files (fst firstReport) = Some [''/p/a.ts'', ''/p/c.ts'']"
  "changes (fst firstReport) = None"
  "version (info (fst firstReport)) = 1"
  by code_simp+

lemma secondReport_returns:
  "returns (getChangesSinceVersion exampleProjectHost (Some 1) (snd firstReport))"
  by code_simp

lemma secondReport_eq:
  "getChangesSinceVersion exampleProjectHost (Some 1) (snd firstReport)
   = Ok (fst secondReport, snd secondReport)"
  using returns_Ok [OF secondReport_returns] by (simp add: secondReport_def)

lemma secondReport_unchanged: "\<not> structureChangedInAPass exampleProjectHost (snd firstReport)"
  by code_simp

lemma extendedReport_returns:
  "returns (getChangesSinceVersion extendingProjectHost (Some 1) (snd firstReport))"
  by code_simp

lemma extendedReport_eq:
  "getChangesSinceVersion extendingProjectHost (Some 1) (snd firstReport)
   = Ok (fst extendedReport, snd extendedReport)"
  using returns_Ok [OF extendedReport_returns] by (simp add: extendedReport_def)

lemma extendedReport_changed: "structureChangedInAPass extendingProjectHost (snd firstReport)"
  by code_simp

lemma extendedUpdate_returns: "returns (updateGraph extendingProjectHost (snd firstReport))"
  by code_simp

lemma extendedUpdate_files:
  "currentFileNames extendingProjectHost
     (snd (returned (updateGraph extendingProjectHost (snd firstReport)) (True, emptyProject)))
   = [''/p/a.ts'', ''/p/c.ts'', ''/p/d.ts'']"
  by code_simp

theorem getChangesSinceVersion_report_witness:
  "getChangesSinceVersion exampleProjectHost None emptyProject = Ok (fst firstReport, snd firstReport)
   \<and> files (fst firstReport) = Some [''/p/a.ts'', ''/p/c.ts'']
   \<and> changes (fst firstReport) = None
   \<and> version (info (fst firstReport)) = 1
   \<and> reportedFiles (snd firstReport) = {''/p/a.ts'', ''/p/c.ts''}
   \<and> getChangesSinceVersion exampleProjectHost (Some 1) (snd firstReport)
       = Ok (fst secondReport, snd secondReport)
   \<and> \<not> structureChangedInAPass exampleProjectHost (snd firstReport)
   \<and> version (info (fst secondReport)) = 1
   \<and> files (fst secondReport) = None
   \<and> changes (fst secondReport) = None
   \<and> getChangesSinceVersion extendingProjectHost (Some 1) (snd firstReport)
       = Ok (fst extendedReport, snd extendedReport)
   \<and> structureChangedInAPass extendingProjectHost (snd firstReport)
   \<and> version (info (fst extendedReport)) = 2
   \<and> files (fst extendedReport) = None
   \<and> (\<exists>delta. changes (fst extendedReport) = Some delta
         \<and> set (added delta) = {''/p/d.ts''} \<and> set (removed delta) = {}
         \<and> updated delta = [])"
proof -
  note report = getChangesSinceVersion_report [OF firstReport_eq]
  have known: "filesKnownAfter (reportedFiles emptyProject) (fst firstReport)
               = {''/p/a.ts'', ''/p/c.ts''}"
    by (simp add: filesKnownAfter_def firstReport_values)
  from report have "reportedFiles (snd firstReport)
                    = filesKnownAfter (reportedFiles emptyProject) (fst firstReport)"
    by blast
  with known have 1: "reportedFiles (snd firstReport) = {''/p/a.ts'', ''/p/c.ts''}" by simp
  from report [THEN conjunct2, rule_format, OF secondReport_eq]
  have 2: "version (info (fst secondReport)) = 1 \<and> files (fst secondReport) = None
           \<and> changes (fst secondReport) = None"
    using secondReport_unchanged by (auto simp: firstReport_values)
  from report [THEN conjunct2, rule_format, OF extendedReport_eq]
  obtain unchanged2 q where
    u: "updateGraph extendingProjectHost (snd firstReport) = Ok (unchanged2, q)"
    and v: "version (info (fst extendedReport)) = 2"
    and d: "files (fst extendedReport) = None
            \<and> (\<exists>delta. changes (fst extendedReport) = Some delta
                  \<and> set (added delta)
                      = set (currentFileNames extendingProjectHost q)
                        - filesKnownAfter (reportedFiles emptyProject) (fst firstReport)
                  \<and> set (removed delta)
                      = filesKnownAfter (reportedFiles emptyProject) (fst firstReport)
                        - set (currentFileNames extendingProjectHost q)
                  \<and> updated delta = [])"
    using extendedReport_changed by (auto simp: firstReport_values)
  from u returns_Ok [OF extendedUpdate_returns, of "(True, emptyProject)"]
  have "q = snd (returned (updateGraph extendingProjectHost (snd firstReport)) (True, emptyProject))"
    by simp
  with extendedUpdate_files
  have "currentFileNames extendingProjectHost q = [''/p/a.ts'', ''/p/c.ts'', ''/p/d.ts'']"
    by simp
  with d known have 3: "files (fst extendedReport) = None
     \<and> (\<exists>delta. changes (fst extendedReport) = Some delta
         \<and> set (added delta) = {''/p/d.ts''} \<and> set (removed delta) = {}
         \<and> updated delta = [])"
    by auto
  from firstReport_eq firstReport_values 1 secondReport_eq secondReport_unchanged 2
    extendedReport_eq extendedReport_changed v 3
  show ?thesis by blast
qed

text \<open>
  C8, as the claim states it, fails. The first report gives version 1 and the two files. The
  next call asks for version 1 with nothing done to the project in between, and the builder
  hands back a new program with the same two files, built without reusing the structure of
  the old one completely. The call reports version 2, not the same version, and a delta, not
  "no changes", although no file has been added or removed.
\<close>

theorem getChangesSinceVersion_delta_for_the_same_files:
  "returns (getChangesSinceVersion exampleProjectHost None emptyProject)
   \<and> version (info (fst firstReport)) = 1
   \<and> files (fst firstReport) = Some [''/p/a.ts'', ''/p/c.ts'']
   \<and> returns (getChangesSinceVersion rebuildingProjectHost (Some 1) (snd firstReport))
   \<and> currentFileNames rebuildingProjectHost (snd rebuiltReport) = [''/p/a.ts'', ''/p/c.ts'']
   \<and> version (info (fst rebuiltReport)) = 2
   \<and> files (fst rebuiltReport) = None
   \<and> changes (fst rebuiltReport) = Some \<lparr>added = [], removed = [], updated = []\<rparr>"
  by code_simp

subsection \<open>Reading the maps after an update\<close>

lemma cacheOf_setCache [simp]:
  "cacheOf k (setCache k' c s) = (if k = k' then c else cacheOf k s)"
  by (cases k; cases k') (simp_all add: cacheOf_def setCache_def)

lemma perDirectoryCacheOf_setCache [simp]:
  "perDirectoryCacheOf k (setCache k' c s) = perDirectoryCacheOf k s"
  by (cases k; cases k') (simp_all add: perDirectoryCacheOf_def setCache_def)

lemma cacheOf_setPerDirectoryCache [simp]:
  "cacheOf k (setPerDirectoryCache k' c s) = cacheOf k s"
  by (cases k; cases k') (simp_all add: cacheOf_def setPerDirectoryCache_def)

lemma perDirectoryCacheOf_setPerDirectoryCache [simp]:
  "perDirectoryCacheOf k (setPerDirectoryCache k' c s) = (if k = k' then c else perDirectoryCacheOf k s)"
  by (cases k; cases k') (simp_all add: perDirectoryCacheOf_def setPerDirectoryCache_def)

lemma setCache_fields [simp]:
  "heap (setCache k c s) = heap s"
  "nextRef (setCache k c s) = nextRef s"
  "allFilesHaveInvalidatedResolution (setCache k c s) = allFilesHaveInvalidatedResolution s"
  "filesWithChangedSetOfUnresolvedImports (setCache k c s) = filesWithChangedSetOfUnresolvedImports s"
  "filesWithInvalidatedResolutions (setCache k c s) = filesWithInvalidatedResolutions s"
  "customFailedLookupPaths (setCache k c s) = customFailedLookupPaths s"
  "directoryWatchesOfFailedLookups (setCache k c s) = directoryWatchesOfFailedLookups s"
  "typeRootsWatches (setCache k c s) = typeRootsWatches s"
  "hostLog (setCache k c s) = hostLog s"
  by (cases k; simp add: setCache_def)+

lemma setPerDirectoryCache_fields [simp]:
  "heap (setPerDirectoryCache k c s) = heap s"
  "nextRef (setPerDirectoryCache k c s) = nextRef s"
  "allFilesHaveInvalidatedResolution (setPerDirectoryCache k c s) = allFilesHaveInvalidatedResolution s"
  "filesWithChangedSetOfUnresolvedImports (setPerDirectoryCache k c s) = filesWithChangedSetOfUnresolvedImports s"
  "filesWithInvalidatedResolutions (setPerDirectoryCache k c s) = filesWithInvalidatedResolutions s"
  "customFailedLookupPaths (setPerDirectoryCache k c s) = customFailedLookupPaths s"
  "directoryWatchesOfFailedLookups (setPerDirectoryCache k c s) = directoryWatchesOfFailedLookups s"
  "typeRootsWatches (setPerDirectoryCache k c s) = typeRootsWatches s"
  "hostLog (setPerDirectoryCache k c s) = hostLog s"
  by (cases k; simp add: setPerDirectoryCache_def)+

lemma setCache_same [simp]: "setCache k (cacheOf k s) s = s"
  by (cases k) (simp_all add: setCache_def cacheOf_def)

lemma cacheOf_update [simp]:
  "cacheOf k (s\<lparr>heap := hp\<rparr>) = cacheOf k s"
  "cacheOf k (s\<lparr>nextRef := n\<rparr>) = cacheOf k s"
  "cacheOf k (s\<lparr>filesWithChangedSetOfUnresolvedImports := c\<rparr>) = cacheOf k s"
  "perDirectoryCacheOf k (s\<lparr>heap := hp\<rparr>) = perDirectoryCacheOf k s"
  "perDirectoryCacheOf k (s\<lparr>nextRef := n\<rparr>) = perDirectoryCacheOf k s"
  "perDirectoryCacheOf k (s\<lparr>filesWithChangedSetOfUnresolvedImports := c\<rparr>) = perDirectoryCacheOf k s"
  by (cases k; simp add: cacheOf_def perDirectoryCacheOf_def)+

lemma resolutionsOfFile_setResolutionsOfFile [simp]:
  "resolutionsOfFile k fp (setResolutionsOfFile k' fp' m s)
   = (if k = k' \<and> fp = fp' then m else resolutionsOfFile k fp s)"
  by (simp add: resolutionsOfFile_def setResolutionsOfFile_def update_conv')

lemma resolutionsOfDirectory_setResolutionsOfFile [simp]:
  "resolutionsOfDirectory k dp (setResolutionsOfFile k' fp m s) = resolutionsOfDirectory k dp s"
  by (simp add: resolutionsOfDirectory_def setResolutionsOfFile_def)

lemma resolutionsOfFile_setResolutionsOfDirectory [simp]:
  "resolutionsOfFile k fp (setResolutionsOfDirectory k' dp m s) = resolutionsOfFile k fp s"
  by (simp add: resolutionsOfFile_def setResolutionsOfDirectory_def)

lemma resolutionsOfDirectory_setResolutionsOfDirectory [simp]:
  "resolutionsOfDirectory k dp (setResolutionsOfDirectory k' dp' m s)
   = (if k = k' \<and> dp = dp' then m else resolutionsOfDirectory k dp s)"
  by (simp add: resolutionsOfDirectory_def setResolutionsOfDirectory_def update_conv')

lemma setResolutionsOfFile_fields [simp]:
  "heap (setResolutionsOfFile k fp m s) = heap s"
  "nextRef (setResolutionsOfFile k fp m s) = nextRef s"
  "allFilesHaveInvalidatedResolution (setResolutionsOfFile k fp m s) = allFilesHaveInvalidatedResolution s"
  "filesWithChangedSetOfUnresolvedImports (setResolutionsOfFile k fp m s)
   = filesWithChangedSetOfUnresolvedImports s"
  "perDirectoryCacheOf k' (setResolutionsOfFile k fp m s) = perDirectoryCacheOf k' s"
  by (simp_all add: setResolutionsOfFile_def)

lemma setResolutionsOfDirectory_fields [simp]:
  "heap (setResolutionsOfDirectory k dp m s) = heap s"
  "nextRef (setResolutionsOfDirectory k dp m s) = nextRef s"
  "allFilesHaveInvalidatedResolution (setResolutionsOfDirectory k dp m s) = allFilesHaveInvalidatedResolution s"
  "filesWithChangedSetOfUnresolvedImports (setResolutionsOfDirectory k dp m s)
   = filesWithChangedSetOfUnresolvedImports s"
  "cacheOf k' (setResolutionsOfDirectory k dp m s) = cacheOf k' s"
  by (simp_all add: setResolutionsOfDirectory_def)

lemma resolutionsOf_update [simp]:
  "resolutionsOfFile k fp (s\<lparr>heap := hp\<rparr>) = resolutionsOfFile k fp s"
  "resolutionsOfFile k fp (s\<lparr>nextRef := n\<rparr>) = resolutionsOfFile k fp s"
  "resolutionsOfFile k fp (s\<lparr>filesWithChangedSetOfUnresolvedImports := c\<rparr>) = resolutionsOfFile k fp s"
  "resolutionsOfDirectory k dp (s\<lparr>heap := hp\<rparr>) = resolutionsOfDirectory k dp s"
  "resolutionsOfDirectory k dp (s\<lparr>nextRef := n\<rparr>) = resolutionsOfDirectory k dp s"
  "resolutionsOfDirectory k dp (s\<lparr>filesWithChangedSetOfUnresolvedImports := c\<rparr>)
   = resolutionsOfDirectory k dp s"
  by (simp_all add: resolutionsOfFile_def resolutionsOfDirectory_def)

lemma setResolutionsOfFile_same:
  "map_of (cacheOf k s) fp = Some m \<Longrightarrow> setResolutionsOfFile k fp m s = s"
  by (simp add: setResolutionsOfFile_def update_triv)

lemma onlyWatchesChanged_same:
  assumes "onlyWatchesChanged s s'"
  shows "cacheOf k s' = cacheOf k s" and "perDirectoryCacheOf k s' = perDirectoryCacheOf k s"
    and "resolutionsOfFile k fp s' = resolutionsOfFile k fp s"
    and "resolutionsOfDirectory k dp s' = resolutionsOfDirectory k dp s"
    and "heap s' = heap s" and "nextRef s' = nextRef s"
    and "allFilesHaveInvalidatedResolution s' = allFilesHaveInvalidatedResolution s"
    and "filesWithChangedSetOfUnresolvedImports s' = filesWithChangedSetOfUnresolvedImports s"
  using assms
  by (cases k; simp add: onlyWatchesChanged_def cacheOf_def perDirectoryCacheOf_def
        resolutionsOfFile_def resolutionsOfDirectory_def)+

subsection \<open>The steps of the loop of resolveNamesWithLocalCache\<close>

lemma resolutionInDirectoryOrLoaded_cases:
  assumes "resolutionInDirectoryOrLoaded h k cf dp name s = (r, s1)"
  obtains (cached) "map_of (resolutionsOfDirectory k dp s) name = Some r" "s1 = s"
  | (loaded) locations result where
      "map_of (resolutionsOfDirectory k dp s) name = None"
      "loaderOf h k name cf = (locations, result)"
      "r = nextRef s"
      "s1 = setResolutionsOfDirectory k dp
              (AList.update name (nextRef s) (resolutionsOfDirectory k dp s))
              (s\<lparr>heap := (heap s)(nextRef s :=
                       \<lparr>failedLookupLocations = locations, resolvedResult = result,
                        isInvalidated = False\<rparr>),
                  nextRef := Suc (nextRef s)\<rparr>)"
  using assms
  by (auto simp: resolutionInDirectoryOrLoaded_def split: option.splits prod.splits)

lemma watchNewAndStopWatchExisting_frame:
  "watchNewAndStopWatchExisting h r existing s = Ok s' \<Longrightarrow> onlyWatchesChanged s s'"
  by (auto simp: watchNewAndStopWatchExisting_def split: if_splits option.splits
      intro: watchAndStopWatchDiffFailedLookupLocations_frame
        watchFailedLookupLocationOfResolution_frame stopWatchFailedLookupLocationOfResolution_frame)

lemma resolveNameAnew_Ok:
  assumes "resolveNameAnew h k cf fp dp name existing lc s = Ok (s', lc', res)"
  obtains r s1 s3 where
    "resolutionInDirectoryOrLoaded h k cf dp name s = (r, s1)"
    "onlyWatchesChanged
       (setResolutionsOfFile k fp (AList.update name r (resolutionsOfFile k fp s1)) s1) s3"
    "res = Some r"
    "(s' = s3 \<and> lc' = lc)
     \<or> (s' = s3\<lparr>filesWithChangedSetOfUnresolvedImports :=
                   Some (the (filesWithChangedSetOfUnresolvedImports s3) @ [fp])\<rparr>
        \<and> lc \<and> \<not> lc'
        \<and> \<not> resolutionIsEqualTo (heap s3) (getResolutionWithResolvedFileName k) existing (Some r))"
proof -
  obtain r s1 where 1: "resolutionInDirectoryOrLoaded h k cf dp name s = (r, s1)"
    by (cases "resolutionInDirectoryOrLoaded h k cf dp name s")
  with assms obtain s3 where
    2: "watchNewAndStopWatchExisting h r existing
          (setResolutionsOfFile k fp (AList.update name r (resolutionsOfFile k fp s1)) s1) = Ok s3"
    and 3: "(if lc \<and> filesWithChangedSetOfUnresolvedImports s3 \<noteq> None
                \<and> \<not> resolutionIsEqualTo (heap s3) (getResolutionWithResolvedFileName k) existing (Some r)
             then Ok (s3\<lparr>filesWithChangedSetOfUnresolvedImports :=
                          Some (the (filesWithChangedSetOfUnresolvedImports s3) @ [fp])\<rparr>, False, Some r)
             else Ok (s3, lc, Some r)) = Ok (s', lc', res)"
    by (auto simp: resolveNameAnew_def andThen_eq_Ok)
  from 3 have "res = Some r" by (auto split: if_splits)
  moreover from 3 have "(s' = s3 \<and> lc' = lc)
     \<or> (s' = s3\<lparr>filesWithChangedSetOfUnresolvedImports :=
                   Some (the (filesWithChangedSetOfUnresolvedImports s3) @ [fp])\<rparr>
        \<and> lc \<and> \<not> lc'
        \<and> \<not> resolutionIsEqualTo (heap s3) (getResolutionWithResolvedFileName k) existing (Some r))"
    by (auto split: if_splits)
  ultimately show ?thesis
    using that [OF 1 watchNewAndStopWatchExisting_frame [OF 2]] by blast
qed

subsection \<open>Resolving a name that is resolved already\<close>

lemma diffFailedLookupLocations_same:
  "i \<le> length ls \<Longrightarrow>
   diffFailedLookupLocations h r e ls ls i s
   = stopWatchFailedLookupLocationOfResolutionFrom h e (length ls) s"
proof (induction "length ls - i" arbitrary: i)
  case 0
  then show ?case by (subst diffFailedLookupLocations.simps) simp
next
  case (Suc n)
  then have "i < length ls" "n = length ls - Suc i" "Suc i \<le> length ls" by simp_all
  with Suc.hyps(1) [of "Suc i"] show ?case
    by (subst diffFailedLookupLocations.simps) simp
qed

lemma watchNewAndStopWatchExisting_same:
  "watchNewAndStopWatchExisting h r (Some r) s = Ok s"
  by (cases "failedLookupLocations (heap s r)")
     (simp_all add: watchNewAndStopWatchExisting_def stopWatchFailedLookupLocationOfResolution_def
        watchAndStopWatchDiffFailedLookupLocations_def diffFailedLookupLocations_same
        stopWatchFailedLookupLocationOfResolutionFrom_def)

lemma resolutionIsEqualTo_refl [simp]: "resolutionIsEqualTo hp g r r"
  by (simp add: resolutionIsEqualTo_def)

lemma resolutionsOfFile_Some:
  "map_of (resolutionsOfFile k fp s) name = Some r
   \<Longrightarrow> map_of (cacheOf k s) fp = Some (resolutionsOfFile k fp s)"
  by (auto simp: resolutionsOfFile_def split: option.splits)

lemma resolveNameAnew_again:
  assumes "map_of (resolutionsOfFile k fp s) name = Some r"
    and "map_of (resolutionsOfDirectory k dp s) name = Some r"
  shows "resolveNameAnew h k cf fp dp name (Some r) lc s = Ok (s, lc, Some r)"
proof -
  have 1: "resolutionInDirectoryOrLoaded h k cf dp name s = (r, s)"
    using assms(2) by (simp add: resolutionInDirectoryOrLoaded_def)
  have 2: "setResolutionsOfFile k fp (AList.update name r (resolutionsOfFile k fp s)) s = s"
    using assms(1) by (simp add: update_triv setResolutionsOfFile_same resolutionsOfFile_Some)
  show ?thesis
    by (simp add: resolveNameAnew_def 1 2 watchNewAndStopWatchExisting_same)
qed

lemma resolveName_again:
  assumes "namesResolved k fp dp N s" and "name \<in> N"
  shows "resolveName h k cf fp dp name (s, seen, lc, rs)
         = Ok (s, seen @ [name], lc,
               rs @ [resolvedResult (heap s (the (map_of (resolutionsOfFile k fp s) name)))])"
proof -
  from assms obtain r where r: "map_of (resolutionsOfFile k fp s) name = Some r"
    "\<not> isInvalidated (heap s r)"
    "allFilesHaveInvalidatedResolution s \<Longrightarrow> map_of (resolutionsOfDirectory k dp s) name = Some r"
    by (auto simp: namesResolved_def)
  show ?thesis
  proof (cases "name \<notin> set seen \<and> allFilesHaveInvalidatedResolution s")
    case True
    with r show ?thesis
      by (simp add: resolveName_def resolveNameAnew_again getResolutionWithResolvedFileName_def)
  next
    case False
    with r show ?thesis
      by (auto simp: resolveName_def getResolutionWithResolvedFileName_def)
  qed
qed

lemma forEachM_resolveName_again:
  assumes "namesResolved k fp dp N s" and "set names \<subseteq> N"
  shows "forEachM (resolveName h k cf fp dp) names (s, seen, lc, rs)
         = Ok (s, seen @ names, lc,
               rs @ map (\<lambda>name. resolvedResult (heap s (the (map_of (resolutionsOfFile k fp s) name))))
                      names)"
  using assms(2)
proof (induction names arbitrary: seen rs)
  case Nil
  then show ?case by simp
next
  case (Cons name names)
  then have "name \<in> N" "set names \<subseteq> N" by simp_all
  with Cons.IH show ?case
    by (simp add: resolveName_again [OF assms(1)])
qed

subsection \<open>What one step of the loop does\<close>

lemma resolveName_step:
  assumes "resolveName h k cf fp dp name (s, seen, lc, rs) = Ok (s', seen', lc', rs')"
  obtains r where "seen' = seen @ [name]" "rs' = rs @ [resolvedResult (heap s' r)]"
    "\<not> isInvalidated (heap s' r)"
    "(s' = s \<and> lc' = lc \<and> map_of (resolutionsOfFile k fp s) name = Some r
        \<and> \<not> (name \<notin> set seen \<and> allFilesHaveInvalidatedResolution s))
     \<or> resolveNameAnew h k cf fp dp name (map_of (resolutionsOfFile k fp s) name) lc s
         = Ok (s', lc', Some r)"
  using assms
  by (auto simp: resolveName_def Let_def andThen_eq_Ok getResolutionWithResolvedFileName_def
      split: if_splits option.splits)

lemma resolveNameAnew_effect:
  assumes "resolveNameAnew h k cf fp dp name existing lc s = Ok (s', lc', Some r)"
  shows "map_of (resolutionsOfFile k fp s') name = Some r"
    and "map_of (resolutionsOfDirectory k dp s') name = Some r"
    and "n \<noteq> name \<Longrightarrow> map_of (resolutionsOfFile k fp s') n = map_of (resolutionsOfFile k fp s) n"
    and "map_of (resolutionsOfDirectory k dp s) n = Some x
         \<Longrightarrow> map_of (resolutionsOfDirectory k dp s') n = Some x"
    and "\<not> isInvalidated (heap s x) \<Longrightarrow> \<not> isInvalidated (heap s' x)"
    and "allFilesHaveInvalidatedResolution s' = allFilesHaveInvalidatedResolution s"
proof -
  from assms obtain r' s1 s3 where
    1: "resolutionInDirectoryOrLoaded h k cf dp name s = (r', s1)"
    and 2: "onlyWatchesChanged
       (setResolutionsOfFile k fp (AList.update name r' (resolutionsOfFile k fp s1)) s1) s3"
    and 3: "Some r = Some r'"
    and 4: "(s' = s3 \<and> lc' = lc)
     \<or> (s' = s3\<lparr>filesWithChangedSetOfUnresolvedImports :=
                   Some (the (filesWithChangedSetOfUnresolvedImports s3) @ [fp])\<rparr>
        \<and> lc \<and> \<not> lc'
        \<and> \<not> resolutionIsEqualTo (heap s3) (getResolutionWithResolvedFileName k) existing (Some r'))"
    by (rule resolveNameAnew_Ok)
  note same = onlyWatchesChanged_same [OF 2]
  have rf: "resolutionsOfFile k fp s' = AList.update name r (resolutionsOfFile k fp s1)"
    and rd: "resolutionsOfDirectory k dp s' = resolutionsOfDirectory k dp s1"
    and hp: "heap s' = heap s1"
    and fl: "allFilesHaveInvalidatedResolution s' = allFilesHaveInvalidatedResolution s1"
    using 3 4 same(3) [of k fp] same(4) [of k dp] same(5,7) by auto
  show "map_of (resolutionsOfFile k fp s') name = Some r"
    by (simp add: rf update_conv')
  from 1 3 show "map_of (resolutionsOfDirectory k dp s') name = Some r"
    by (cases rule: resolutionInDirectoryOrLoaded_cases) (simp_all add: rd update_conv')
  from 1 show "map_of (resolutionsOfFile k fp s') n = map_of (resolutionsOfFile k fp s) n"
    if "n \<noteq> name"
    using that by (cases rule: resolutionInDirectoryOrLoaded_cases) (simp_all add: rf update_conv')
  from 1 show "map_of (resolutionsOfDirectory k dp s') n = Some x"
    if "map_of (resolutionsOfDirectory k dp s) n = Some x"
    using that by (cases rule: resolutionInDirectoryOrLoaded_cases) (auto simp: rd update_conv')
  from 1 show "\<not> isInvalidated (heap s' x)" if "\<not> isInvalidated (heap s x)"
    using that by (cases rule: resolutionInDirectoryOrLoaded_cases) (auto simp: hp)
  from 1 show "allFilesHaveInvalidatedResolution s' = allFilesHaveInvalidatedResolution s"
    by (cases rule: resolutionInDirectoryOrLoaded_cases) (simp_all add: fl)
qed

lemma resolveName_namesResolved:
  assumes "resolveName h k cf fp dp name (s, seen, lc, rs) = Ok (s', seen', lc', rs')"
    and "namesResolved k fp dp (set seen) s"
  shows "namesResolved k fp dp (set seen') s'"
proof -
  from assms(1) obtain r where seen: "seen' = seen @ [name]"
    and valid: "\<not> isInvalidated (heap s' r)"
    and how: "(s' = s \<and> lc' = lc \<and> map_of (resolutionsOfFile k fp s) name = Some r
        \<and> \<not> (name \<notin> set seen \<and> allFilesHaveInvalidatedResolution s))
     \<or> resolveNameAnew h k cf fp dp name (map_of (resolutionsOfFile k fp s) name) lc s
         = Ok (s', lc', Some r)"
    by (rule resolveName_step)
  from how show ?thesis
  proof
    assume kept: "s' = s \<and> lc' = lc \<and> map_of (resolutionsOfFile k fp s) name = Some r
        \<and> \<not> (name \<notin> set seen \<and> allFilesHaveInvalidatedResolution s)"
    show ?thesis
      unfolding namesResolved_def seen
    proof
      fix n assume "n \<in> set (seen @ [name])"
      then consider "n \<in> set seen" | "n = name" "name \<notin> set seen" by auto
      then show "\<exists>r. map_of (resolutionsOfFile k fp s') n = Some r
                    \<and> \<not> isInvalidated (heap s' r)
                    \<and> (allFilesHaveInvalidatedResolution s'
                         \<longrightarrow> map_of (resolutionsOfDirectory k dp s') n = Some r)"
      proof cases
        case 1
        with assms(2) kept show ?thesis by (auto simp: namesResolved_def)
      next
        case 2
        with kept valid show ?thesis by auto
      qed
    qed
  next
    assume anew: "resolveNameAnew h k cf fp dp name (map_of (resolutionsOfFile k fp s) name) lc s
         = Ok (s', lc', Some r)"
    note eff = resolveNameAnew_effect [OF anew]
    show ?thesis
      unfolding namesResolved_def seen
    proof
      fix n assume "n \<in> set (seen @ [name])"
      then consider "n = name" | "n \<in> set seen" "n \<noteq> name" by auto
      then show "\<exists>r. map_of (resolutionsOfFile k fp s') n = Some r
                    \<and> \<not> isInvalidated (heap s' r)
                    \<and> (allFilesHaveInvalidatedResolution s'
                         \<longrightarrow> map_of (resolutionsOfDirectory k dp s') n = Some r)"
      proof cases
        case 1
        with eff(1,2) valid show ?thesis by auto
      next
        case 2
        with assms(2) obtain x where x: "map_of (resolutionsOfFile k fp s) n = Some x"
          "\<not> isInvalidated (heap s x)"
          "allFilesHaveInvalidatedResolution s \<longrightarrow> map_of (resolutionsOfDirectory k dp s) n = Some x"
          by (auto simp: namesResolved_def)
        with 2 eff(3) [of n] eff(4) [of n x] eff(5) [of x] eff(6) show ?thesis by auto
      qed
    qed
  qed
qed

lemma forEachM_resolveName_seen:
  "forEachM (resolveName h k cf fp dp) names (s, seen, lc, rs) = Ok (s', seen', lc', rs')
   \<Longrightarrow> seen' = seen @ names"
proof (induction names arbitrary: s seen lc rs)
  case Nil
  then show ?case by simp
next
  case (Cons name names)
  from Cons.prems obtain t where t: "resolveName h k cf fp dp name (s, seen, lc, rs) = Ok t"
    and rest: "forEachM (resolveName h k cf fp dp) names t = Ok (s', seen', lc', rs')"
    by (auto simp: andThen_eq_Ok)
  obtain s1 seen1 lc1 rs1 where t1: "t = (s1, seen1, lc1, rs1)" by (cases t)
  from t t1 have "seen1 = seen @ [name]" by (auto elim: resolveName_step)
  with Cons.IH [OF rest [unfolded t1]] show ?case by simp
qed

lemma forEachM_resolveName_namesResolved:
  assumes "forEachM (resolveName h k cf fp dp) names (s, seen, lc, rs) = Ok (s', seen', lc', rs')"
    and "namesResolved k fp dp (set seen) s"
  shows "namesResolved k fp dp (set seen') s'"
proof -
  have "(\<lambda>(t, seen, lc, rs). namesResolved k fp dp (set seen) t) (s', seen', lc', rs')"
    using assms(1)
  proof (rule forEachM_preserves)
    show "(\<lambda>(t, seen, lc, rs). namesResolved k fp dp (set seen) t) (s, seen, lc, rs)"
      using assms(2) by simp
  next
    fix x t t'
    assume "resolveName h k cf fp dp x t = Ok t'"
      and "(\<lambda>(t, seen, lc, rs). namesResolved k fp dp (set seen) t) t"
    then show "(\<lambda>(t, seen, lc, rs). namesResolved k fp dp (set seen) t) t'"
      by (cases t; cases t') (auto dest: resolveName_namesResolved)
  qed
  then show ?thesis by simp
qed

subsection \<open>Resolving the same names again\<close>

lemma removeUnusedName_effect:
  assumes "removeUnusedName h k fp seen reused e s = Ok s'"
  shows "heap s' = heap s" and "nextRef s' = nextRef s"
    and "allFilesHaveInvalidatedResolution s' = allFilesHaveInvalidatedResolution s"
    and "filesWithChangedSetOfUnresolvedImports s' = filesWithChangedSetOfUnresolvedImports s"
    and "perDirectoryCacheOf k' s' = perDirectoryCacheOf k' s"
    and "n \<in> set seen \<Longrightarrow> map_of (resolutionsOfFile k fp s') n = map_of (resolutionsOfFile k fp s) n"
    and "set (resolutionsOfFile k fp s') \<subseteq> set (resolutionsOfFile k fp s)"
proof -
  obtain name r where e: "e = (name, r)" by (cases e)
  have "heap s' = heap s \<and> nextRef s' = nextRef s
    \<and> allFilesHaveInvalidatedResolution s' = allFilesHaveInvalidatedResolution s
    \<and> filesWithChangedSetOfUnresolvedImports s' = filesWithChangedSetOfUnresolvedImports s
    \<and> perDirectoryCacheOf k' s' = perDirectoryCacheOf k' s
    \<and> (n \<in> set seen \<longrightarrow> map_of (resolutionsOfFile k fp s') n = map_of (resolutionsOfFile k fp s) n)
    \<and> set (resolutionsOfFile k fp s') \<subseteq> set (resolutionsOfFile k fp s)"
  proof (cases "name \<notin> set seen \<and> name \<notin> (case reused of None \<Rightarrow> {} | Some names \<Rightarrow> set names)")
    case False
    with assms e show ?thesis by (auto simp: removeUnusedName_def)
  next
    case True
    with assms e obtain s1 where stop: "stopWatchFailedLookupLocationOfResolution h r s = Ok s1"
      and s': "s' = setResolutionsOfFile k fp (AList.delete name (resolutionsOfFile k fp s1)) s1"
      by (auto simp: removeUnusedName_def andThen_eq_Ok)
    note same = onlyWatchesChanged_same [OF stopWatchFailedLookupLocationOfResolution_frame [OF stop]]
    have "set (AList.delete name (resolutionsOfFile k fp s)) \<subseteq> set (resolutionsOfFile k fp s)"
      by (auto simp: AList.delete_eq)
    with True show ?thesis
      using same(2) [of k'] same(3) [of k fp] same(5-8)
      by (auto simp: s' delete_conv')
  qed
  then show "heap s' = heap s" and "nextRef s' = nextRef s"
    and "allFilesHaveInvalidatedResolution s' = allFilesHaveInvalidatedResolution s"
    and "filesWithChangedSetOfUnresolvedImports s' = filesWithChangedSetOfUnresolvedImports s"
    and "perDirectoryCacheOf k' s' = perDirectoryCacheOf k' s"
    and "n \<in> set seen \<Longrightarrow> map_of (resolutionsOfFile k fp s') n = map_of (resolutionsOfFile k fp s) n"
    and "set (resolutionsOfFile k fp s') \<subseteq> set (resolutionsOfFile k fp s)"
    by simp_all
qed

lemma removeUnusedName_namesResolved:
  assumes "removeUnusedName h k fp seen reused e s = Ok s'"
    and "namesResolved k fp dp (set seen) s"
  shows "namesResolved k fp dp (set seen) s'"
  using assms(2) removeUnusedName_effect(1,3,6) [OF assms(1)]
    removeUnusedName_effect(5) [OF assms(1), of k]
  by (simp add: namesResolved_def resolutionsOfDirectory_def)

lemma ensured_maps:
  fixes s k fp dp
  defines "s1 \<equiv> (case map_of (cacheOf k s) fp of
                   Some m \<Rightarrow> s | None \<Rightarrow> setResolutionsOfFile k fp [] s)"
  defines "s2 \<equiv> (case map_of (perDirectoryCacheOf k s1) dp of
                   Some m \<Rightarrow> s1 | None \<Rightarrow> setResolutionsOfDirectory k dp [] s1)"
  shows "resolutionsOfFile k fp s2 = resolutionsOfFile k fp s"
    and "resolutionsOfDirectory k dp s2 = resolutionsOfDirectory k dp s"
    and "heap s2 = heap s" and "nextRef s2 = nextRef s"
    and "allFilesHaveInvalidatedResolution s2 = allFilesHaveInvalidatedResolution s"
    and "filesWithChangedSetOfUnresolvedImports s2 = filesWithChangedSetOfUnresolvedImports s"
  by (auto simp: s1_def s2_def resolutionsOfFile_def resolutionsOfDirectory_def
      setResolutionsOfFile_def setResolutionsOfDirectory_def update_conv'
      split: option.splits)

lemma resolveNamesWithLocalCache_namesResolved:
  assumes "resolveNamesWithLocalCache h k names cf reused lc s = Ok (rs, s')"
  shows "namesResolved k (toPath h cf) (getDirectoryPath h (toPath h cf)) (set names) s'"
proof -
  let ?fp = "toPath h cf"
  let ?dp = "getDirectoryPath h ?fp"
  let ?s1 = "case map_of (cacheOf k s) ?fp of
               Some m \<Rightarrow> s | None \<Rightarrow> setResolutionsOfFile k ?fp [] s"
  let ?s2 = "case map_of (perDirectoryCacheOf k ?s1) ?dp of
               Some m \<Rightarrow> ?s1 | None \<Rightarrow> setResolutionsOfDirectory k ?dp [] ?s1"
  from assms obtain s3 seen lc3 where
    loop: "forEachM (resolveName h k cf ?fp ?dp) names (?s2, [], lc, []) = Ok (s3, seen, lc3, rs)"
    and fin: "forEachM (removeUnusedName h k ?fp seen reused) (resolutionsOfFile k ?fp s3) s3 = Ok s'"
    by (auto simp: resolveNamesWithLocalCache_def Let_def andThen_eq_Ok)
  from forEachM_resolveName_seen [OF loop] have seen: "seen = names" by simp
  have "namesResolved k ?fp ?dp (set []) ?s2" by (simp add: namesResolved_def)
  from forEachM_resolveName_namesResolved [OF loop this]
  have "namesResolved k ?fp ?dp (set names) s3" by (simp add: seen)
  with fin show ?thesis
    unfolding seen
    by (rule forEachM_preserves) (rule removeUnusedName_namesResolved)
qed

lemma resolveNamesWithLocalCache_of_namesResolved:
  assumes "resolveNamesWithLocalCache h k names cf reused lc s = Ok (rs, s')"
    and "namesResolved k (toPath h cf) (getDirectoryPath h (toPath h cf)) (set names) s"
  shows "filesWithChangedSetOfUnresolvedImports s' = filesWithChangedSetOfUnresolvedImports s"
    and "heap s' = heap s"
    and "rs = map (\<lambda>name. resolvedResult
                     (heap s (the (map_of (resolutionsOfFile k (toPath h cf) s) name)))) names"
proof -
  let ?fp = "toPath h cf"
  let ?dp = "getDirectoryPath h ?fp"
  let ?s1 = "case map_of (cacheOf k s) ?fp of
               Some m \<Rightarrow> s | None \<Rightarrow> setResolutionsOfFile k ?fp [] s"
  let ?s2 = "case map_of (perDirectoryCacheOf k ?s1) ?dp of
               Some m \<Rightarrow> ?s1 | None \<Rightarrow> setResolutionsOfDirectory k ?dp [] ?s1"
  note ens = ensured_maps [where k = k and s = s and fp = ?fp and dp = ?dp]
  from assms(2) have res: "namesResolved k ?fp ?dp (set names) ?s2"
    unfolding namesResolved_def ens .
  from assms(1) obtain s3 seen lc3 where
    loop: "forEachM (resolveName h k cf ?fp ?dp) names (?s2, [], lc, []) = Ok (s3, seen, lc3, rs)"
    and fin: "forEachM (removeUnusedName h k ?fp seen reused) (resolutionsOfFile k ?fp s3) s3 = Ok s'"
    by (auto simp: resolveNamesWithLocalCache_def Let_def andThen_eq_Ok)
  have "Ok (s3, seen, lc3, rs)
        = Ok (?s2, [] @ names, lc,
              [] @ map (\<lambda>name. resolvedResult
                     (heap ?s2 (the (map_of (resolutionsOfFile k ?fp ?s2) name)))) names)"
    unfolding loop [symmetric] by (rule forEachM_resolveName_again [OF res subset_refl])
  then have s3: "s3 = ?s2"
    and rs: "rs = map (\<lambda>name. resolvedResult
                     (heap ?s2 (the (map_of (resolutionsOfFile k ?fp ?s2) name)))) names"
    by simp_all
  have "filesWithChangedSetOfUnresolvedImports s' = filesWithChangedSetOfUnresolvedImports s3
        \<and> heap s' = heap s3"
    using fin
    by (rule forEachM_preserves) (auto dest: removeUnusedName_effect(1,4))
  then show "filesWithChangedSetOfUnresolvedImports s' = filesWithChangedSetOfUnresolvedImports s"
    and "heap s' = heap s"
    unfolding s3 ens by simp_all
  from rs show "rs = map (\<lambda>name. resolvedResult
                     (heap s (the (map_of (resolutionsOfFile k (toPath h cf) s) name)))) names"
    unfolding ens .
qed

lemma resolutionIsEqualTo_path:
  assumes "\<not> isInvalidated (hp old)"
  shows "resolutionIsEqualTo hp (getResolutionWithResolvedFileName k) (Some old) (Some new)
         = (old = new
            \<or> map_option resolvedFileName (resolvedResult (hp old))
              = map_option resolvedFileName (resolvedResult (hp new)))"
  using assms
  by (auto simp: resolutionIsEqualTo_def getResolutionWithResolvedFileName_def
      split: option.splits)

text \<open>
  C7. When \<^verbatim>\<open>resolveNamesWithLocalCache\<close> has returned for a list of names and a containing
  file and is called again for the same names and the same file, with \<^verbatim>\<open>logChanges\<close> on, the
  second call leaves the list of the files with a changed set of unresolved imports as it
  is and returns the resolved results that the cache holds. The comparison that decides
  about a change, for an old resolution that is not invalidated, holds when the two
  resolution objects are one or when their results resolve to the same file name or are
  both absent.
\<close>

theorem resolveNamesWithLocalCache_again_records_no_change:
  assumes "resolveNamesWithLocalCache h k names containingFile reusedNames logChanges s = Ok (rs, s1)"
    and "resolveNamesWithLocalCache h k names containingFile reusedNames' True s1 = Ok (rs', s2)"
  shows "filesWithChangedSetOfUnresolvedImports s2 = filesWithChangedSetOfUnresolvedImports s1
         \<and> rs' = map (\<lambda>name. resolvedResult
                        (heap s1 (the (map_of (resolutionsOfFile k (toPath h containingFile) s1) name))))
                   names
         \<and> (\<forall>old new. \<not> isInvalidated (heap s1 old) \<longrightarrow>
               resolutionIsEqualTo (heap s1) (getResolutionWithResolvedFileName k) (Some old) (Some new)
               = (old = new
                  \<or> map_option resolvedFileName (resolvedResult (heap s1 old))
                    = map_option resolvedFileName (resolvedResult (heap s1 new))))"
  using resolveNamesWithLocalCache_of_namesResolved(1,3)
          [OF assms(2) resolveNamesWithLocalCache_namesResolved [OF assms(1)]]
    resolutionIsEqualTo_path [of "heap s1"]
  by blast

lemma resolvingAnew_returns:
  "returns (resolveModuleNames exampleHost [''./c''] ''/p/a.ts'' None True cacheWithAllFilesInvalidated)"
  by code_simp

lemma resolvingAnew_results:
  "fst (returned (resolveModuleNames exampleHost [''./c''] ''/p/a.ts'' None True
                    cacheWithAllFilesInvalidated)
          ([], cacheWithAllFilesInvalidated))
   = [Some \<lparr>resolvedFileName = Some ''/p/c.ts''\<rparr>]"
  by code_simp

lemma resolvingAnew_eq:
  "resolveNamesWithLocalCache exampleHost ModuleNames [''./c''] ''/p/a.ts'' None True
     cacheWithAllFilesInvalidated
   = Ok ([Some \<lparr>resolvedFileName = Some ''/p/c.ts''\<rparr>], cacheAfterResolvingAnew)"
proof -
  have "resolveModuleNames exampleHost [''./c''] ''/p/a.ts'' None True cacheWithAllFilesInvalidated
        = Ok (returned (resolveModuleNames exampleHost [''./c''] ''/p/a.ts'' None True
                          cacheWithAllFilesInvalidated)
                ([], cacheWithAllFilesInvalidated))"
    by (rule returns_Ok [OF resolvingAnew_returns])
  moreover have "returned (resolveModuleNames exampleHost [''./c''] ''/p/a.ts'' None True
                             cacheWithAllFilesInvalidated)
                   ([], cacheWithAllFilesInvalidated)
                 = ([Some \<lparr>resolvedFileName = Some ''/p/c.ts''\<rparr>], cacheAfterResolvingAnew)"
    using resolvingAnew_results by (simp add: cacheAfterResolvingAnew_def prod_eq_iff)
  ultimately show ?thesis by (simp add: resolveModuleNames_def)
qed

lemma resolvingAgain_returns:
  "returns (resolveNamesWithLocalCache exampleHost ModuleNames [''./c''] ''/p/a.ts'' None True
              cacheAfterResolvingAnew)"
  by code_simp

lemma resolvingAnew_state:
  "allFilesHaveInvalidatedResolution cacheWithAllFilesInvalidated
   \<and> filesWithChangedSetOfUnresolvedImports cacheAfterResolvingAnew = Some []
   \<and> map_of (resolutionsOfFile ModuleNames ''/p/a.ts'' cacheWithAllFilesInvalidated) ''./c'' = Some 0
   \<and> map_of (resolutionsOfFile ModuleNames ''/p/a.ts'' cacheAfterResolvingAnew) ''./c'' = Some 2"
  by code_simp

theorem resolveNamesWithLocalCache_again_records_no_change_witness:
  "resolveNamesWithLocalCache exampleHost ModuleNames [''./c''] ''/p/a.ts'' None True
     cacheWithAllFilesInvalidated
   = Ok ([Some \<lparr>resolvedFileName = Some ''/p/c.ts''\<rparr>], cacheAfterResolvingAnew)
   \<and> returns (resolveNamesWithLocalCache exampleHost ModuleNames [''./c''] ''/p/a.ts'' None True
                cacheAfterResolvingAnew)
   \<and> allFilesHaveInvalidatedResolution cacheWithAllFilesInvalidated
   \<and> map_of (resolutionsOfFile ModuleNames ''/p/a.ts'' cacheWithAllFilesInvalidated) ''./c'' = Some 0
   \<and> map_of (resolutionsOfFile ModuleNames ''/p/a.ts'' cacheAfterResolvingAnew) ''./c'' = Some 2
   \<and> filesWithChangedSetOfUnresolvedImports cacheAfterResolvingAnew = Some []
   \<and> filesWithChangedSetOfUnresolvedImports
        (snd (returned (resolveNamesWithLocalCache exampleHost ModuleNames [''./c''] ''/p/a.ts''
                          None True cacheAfterResolvingAnew)
                ([], cacheAfterResolvingAnew))) = Some []"
proof -
  obtain rs' s2 where again: "returned (resolveNamesWithLocalCache exampleHost ModuleNames [''./c'']
      ''/p/a.ts'' None True cacheAfterResolvingAnew) ([], cacheAfterResolvingAnew) = (rs', s2)"
    by (cases "returned (resolveNamesWithLocalCache exampleHost ModuleNames [''./c'']
      ''/p/a.ts'' None True cacheAfterResolvingAnew) ([], cacheAfterResolvingAnew)")
  with returns_Ok [OF resolvingAgain_returns, of "([], cacheAfterResolvingAnew)"]
  have "resolveNamesWithLocalCache exampleHost ModuleNames [''./c''] ''/p/a.ts'' None True
          cacheAfterResolvingAnew = Ok (rs', s2)"
    by simp
  from resolveNamesWithLocalCache_again_records_no_change [OF resolvingAnew_eq this]
  have "filesWithChangedSetOfUnresolvedImports s2
        = filesWithChangedSetOfUnresolvedImports cacheAfterResolvingAnew"
    by simp
  with again resolvingAnew_eq resolvingAgain_returns resolvingAnew_state show ?thesis
    by simp
qed

subsection \<open>One result for each name\<close>







subsection \<open>Resolving returns\<close>










subsection \<open>The results are those of the loader\<close>







subsection \<open>The counts after a release\<close>

lemma releasedFrom_Nil [simp]: "releasedFrom h [] s s"
  by (simp add: releasedFrom_def placedCount_def option.map_ident)

lemma releasedFrom_trans:
  assumes "releasedFrom h ls s t" and "releasedFrom h ms t u"
  shows "releasedFrom h (ls @ ms) s u"
proof -
  have "countOf u d = map_option (\<lambda>c. c - placedCount h d (ls @ ms)) (countOf s d)" for d
  proof -
    from assms have "countOf u d
        = map_option (\<lambda>c. c - placedCount h d ms) (map_option (\<lambda>c. c - placedCount h d ls) (countOf s d))"
      by (simp add: releasedFrom_def)
    then show ?thesis
      by (cases "countOf s d") (simp_all add: placedCount_def)
  qed
  with assms show ?thesis by (simp add: releasedFrom_def)
qed

lemma releasedFrom_cong:
  assumes "releasedFrom h ls s t"
    and "directoryWatchesOfFailedLookups t' = directoryWatchesOfFailedLookups t"
    and "hostLog t' = hostLog t"
  shows "releasedFrom h ls s t'"
  using assms by (simp add: releasedFrom_def countOf_def watchedDirectories_def)

lemma stopWatchFailedLookupLocation_released:
  assumes "stopWatchFailedLookupLocation h l s = Ok s'"
  shows "releasedFrom h [l] s s'"
proof -
  from assms obtain s1 where
    a: "(case map_of (customFailedLookupPaths s) (toPath h l) of
           None \<Rightarrow> Ok s
         | Some count \<Rightarrow>
             if count = 0 then Ok s
             else if count = 1
             then Ok (s\<lparr>customFailedLookupPaths := AList.delete (toPath h l) (customFailedLookupPaths s)\<rparr>)
             else if 1 < count
             then Ok (s\<lparr>customFailedLookupPaths :=
                         AList.update (toPath h l) (count - 1) (customFailedLookupPaths s)\<rparr>)
             else Throw AssertionFailure) = Ok s1"
    and b: "(case getDirectoryToWatchFailedLookupLocation h l (toPath h l) of
               None \<Rightarrow> None
             | Some (d, dirPath) \<Rightarrow>
                 (case map_of (directoryWatchesOfFailedLookups s1) dirPath of
                    None \<Rightarrow> Throw TypeError
                  | Some dirWatcher \<Rightarrow>
                      Ok (s1\<lparr>directoryWatchesOfFailedLookups :=
                              AList.update dirPath (dirWatcher\<lparr>refCount := refCount dirWatcher - 1\<rparr>)
                                (directoryWatchesOfFailedLookups s1)\<rparr>))) = Ok s'"
    unfolding stopWatchFailedLookupLocation_def Let_def andThen_eq_Ok by blast
  from a have 1: "directoryWatchesOfFailedLookups s1 = directoryWatchesOfFailedLookups s"
    "hostLog s1 = hostLog s"
    by (auto split: option.splits if_splits)
  from b obtain d dirPath w where
    p: "getDirectoryToWatchFailedLookupLocation h l (toPath h l) = Some (d, dirPath)"
    and w: "map_of (directoryWatchesOfFailedLookups s1) dirPath = Some w"
    and s': "s' = s1\<lparr>directoryWatchesOfFailedLookups :=
                      AList.update dirPath (w\<lparr>refCount := refCount w - 1\<rparr>)
                        (directoryWatchesOfFailedLookups s1)\<rparr>"
    by (auto split: option.splits prod.splits)
  have "watchedDirectories s' = watchedDirectories s"
    using w 1 by (simp add: s' watchedDirectories_def map_watcher_update)
  moreover have "hostLog s' = hostLog s" using 1 by (simp add: s')
  moreover have "countOf s' x = map_option (\<lambda>c. c - placedCount h x [l]) (countOf s x)" for x
    using w 1 p
    by (cases "x = dirPath")
       (auto simp: s' countOf_def update_conv' placedCount_def placedAt_def option.map_ident)
  ultimately show ?thesis by (simp add: releasedFrom_def)
qed

lemma forEachM_stopWatchFailedLookupLocation_released:
  "forEachM (stopWatchFailedLookupLocation h) ls s = Ok s' \<Longrightarrow> releasedFrom h ls s s'"
proof (induction ls arbitrary: s)
  case Nil
  then show ?case by simp
next
  case (Cons l ls)
  from Cons.prems obtain s1 where 1: "stopWatchFailedLookupLocation h l s = Ok s1"
    and 2: "forEachM (stopWatchFailedLookupLocation h) ls s1 = Ok s'"
    by (auto simp: andThen_eq_Ok)
  from releasedFrom_trans [OF stopWatchFailedLookupLocation_released [OF 1] Cons.IH [OF 2]]
  show ?case by simp
qed

lemma stopWatchFailedLookupLocationOfResolutionFrom_released:
  "stopWatchFailedLookupLocationOfResolutionFrom h r i s = Ok s'
   \<Longrightarrow> releasedFrom h (drop i (failedLookupLocationsOfResolution (heap s) r)) s s'"
  by (auto simp: stopWatchFailedLookupLocationOfResolutionFrom_def
      failedLookupLocationsOfResolution_def
      split: option.splits dest: forEachM_stopWatchFailedLookupLocation_released)

lemma stopWatchFailedLookupLocationOfResolution_released:
  "stopWatchFailedLookupLocationOfResolution h r s = Ok s'
   \<Longrightarrow> releasedFrom h (failedLookupLocationsOfResolution (heap s) r) s s'"
  by (auto simp: stopWatchFailedLookupLocationOfResolution_def
      failedLookupLocationsOfResolution_def stopWatchFailedLookupLocationOfResolutionFrom_def
      split: option.splits dest: forEachM_stopWatchFailedLookupLocation_released)

lemma forEachM_stopWatchFailedLookupLocationOfResolution_released:
  "forEachM (\<lambda>(name, r). stopWatchFailedLookupLocationOfResolution h r) rs s = Ok s'
   \<Longrightarrow> onlyWatchesChanged s s' \<and> releasedFrom h (failedLookupLocationsOf (heap s) rs) s s'"
proof (induction rs arbitrary: s)
  case Nil
  then show ?case by (simp add: failedLookupLocationsOf_def)
next
  case (Cons e rs)
  obtain name r where e: "e = (name, r)" by (cases e)
  from Cons.prems e obtain s1 where 1: "stopWatchFailedLookupLocationOfResolution h r s = Ok s1"
    and 2: "forEachM (\<lambda>(name, r). stopWatchFailedLookupLocationOfResolution h r) rs s1 = Ok s'"
    by (auto simp: andThen_eq_Ok)
  note fr = stopWatchFailedLookupLocationOfResolution_frame [OF 1]
  then have hp: "heap s1 = heap s" by (simp add: onlyWatchesChanged_def)
  from Cons.IH [OF 2] have 3: "onlyWatchesChanged s1 s'"
    and 4: "releasedFrom h (failedLookupLocationsOf (heap s) rs) s1 s'"
    by (simp_all add: hp)
  from releasedFrom_trans [OF stopWatchFailedLookupLocationOfResolution_released [OF 1] 4]
  have "releasedFrom h (failedLookupLocationsOf (heap s) (e # rs)) s s'"
    by (simp add: e failedLookupLocationsOf_def)
  with onlyWatchesChanged_trans [OF fr 3] show ?case by simp
qed

lemma removeUnusedName_released:
  assumes "removeUnusedName h k fp seen reused (name, r) s = Ok s'"
  shows "releasedFrom h
           (if name \<notin> set seen \<and> name \<notin> (case reused of None \<Rightarrow> {} | Some names \<Rightarrow> set names)
            then failedLookupLocationsOfResolution (heap s) r else []) s s'"
proof (cases "name \<notin> set seen \<and> name \<notin> (case reused of None \<Rightarrow> {} | Some names \<Rightarrow> set names)")
  case False
  with assms show ?thesis by (auto simp: removeUnusedName_def)
next
  case True
  with assms obtain s1 where stop: "stopWatchFailedLookupLocationOfResolution h r s = Ok s1"
    and s': "s' = setResolutionsOfFile k fp (AList.delete name (resolutionsOfFile k fp s1)) s1"
    by (auto simp: removeUnusedName_def andThen_eq_Ok)
  have "releasedFrom h (failedLookupLocationsOfResolution (heap s) r) s s'"
    by (rule releasedFrom_cong [OF stopWatchFailedLookupLocationOfResolution_released [OF stop]])
       (simp_all add: s' setResolutionsOfFile_def)
  with True show ?thesis by simp
qed

lemma removeResolutionsOfFileFromCache_effect:
  assumes "removeResolutionsOfFileFromCache h k fp s = Ok s'"
  shows "cacheOf k' s' = (if k' = k then AList.delete fp (cacheOf k s) else cacheOf k' s)"
    and "heap s' = heap s"
    and "allFilesHaveInvalidatedResolution s' = allFilesHaveInvalidatedResolution s"
    and "releasedFrom h (failedLookupLocationsOf (heap s) (resolutionsOfFile k fp s)) s s'"
proof -
  have "cacheOf k' s' = (if k' = k then AList.delete fp (cacheOf k s) else cacheOf k' s)
    \<and> heap s' = heap s
    \<and> allFilesHaveInvalidatedResolution s' = allFilesHaveInvalidatedResolution s
    \<and> releasedFrom h (failedLookupLocationsOf (heap s) (resolutionsOfFile k fp s)) s s'"
  proof (cases "map_of (cacheOf k s) fp")
    case None
    then have "fp \<notin> fst ` set (cacheOf k s)" by (simp add: map_of_eq_None_iff)
    with assms None show ?thesis
      by (simp add: removeResolutionsOfFileFromCache_def resolutionsOfFile_def
          failedLookupLocationsOf_def)
  next
    case (Some resolutions)
    with assms obtain s1 where
      a: "forEachM (\<lambda>(name, r). stopWatchFailedLookupLocationOfResolution h r) resolutions s = Ok s1"
      and b: "s' = setCache k (AList.delete fp (cacheOf k s1)) s1"
      by (auto simp: removeResolutionsOfFileFromCache_def andThen_eq_Ok)
    from forEachM_stopWatchFailedLookupLocationOfResolution_released [OF a]
    have fr: "onlyWatchesChanged s s1"
      and rel: "releasedFrom h (failedLookupLocationsOf (heap s) resolutions) s s1"
      by simp_all
    note same = onlyWatchesChanged_same [OF fr]
    have "releasedFrom h (failedLookupLocationsOf (heap s) resolutions) s s'"
      by (rule releasedFrom_cong [OF rel]) (simp_all add: b)
    with Some show ?thesis
      using same(1) [of k] same(1) [of k'] same(5,7)
      by (simp add: b resolutionsOfFile_def)
  qed
  then show "cacheOf k' s' = (if k' = k then AList.delete fp (cacheOf k s) else cacheOf k' s)"
    and "heap s' = heap s"
    and "allFilesHaveInvalidatedResolution s' = allFilesHaveInvalidatedResolution s"
    and "releasedFrom h (failedLookupLocationsOf (heap s) (resolutionsOfFile k fp s)) s s'"
    by simp_all
qed

lemma removeResolutionsOfFile_effect:
  assumes "removeResolutionsOfFile h fp s = Ok s'"
  shows "cacheOf k s' = AList.delete fp (cacheOf k s)"
    and "heap s' = heap s"
    and "allFilesHaveInvalidatedResolution s' = allFilesHaveInvalidatedResolution s"
    and "releasedFrom h (failedLookupLocationsOfFile s fp) s s'"
proof -
  from assms obtain s1 where 1: "removeResolutionsOfFileFromCache h ModuleNames fp s = Ok s1"
    and 2: "removeResolutionsOfFileFromCache h TypeReferenceDirectives fp s1 = Ok s'"
    by (auto simp: removeResolutionsOfFile_def andThen_eq_Ok)
  note e1 = removeResolutionsOfFileFromCache_effect [OF 1]
  note e2 = removeResolutionsOfFileFromCache_effect [OF 2]
  show "cacheOf k s' = AList.delete fp (cacheOf k s)"
    using e1(1) [of k] e1(1) [of TypeReferenceDirectives] e2(1) [of k] by (cases k) simp_all
  show "heap s' = heap s" using e1(2) e2(2) by simp
  show "allFilesHaveInvalidatedResolution s' = allFilesHaveInvalidatedResolution s"
    using e1(3) e2(3) by simp
  have "resolutionsOfFile TypeReferenceDirectives fp s1 = resolutionsOfFile TypeReferenceDirectives fp s"
    using e1(1) [of TypeReferenceDirectives] by (simp add: resolutionsOfFile_def)
  with e1(2) e2(4)
  have "releasedFrom h (failedLookupLocationsOf (heap s) (resolutionsOfFile TypeReferenceDirectives fp s)) s1 s'"
    by simp
  from releasedFrom_trans [OF e1(4) this]
  show "releasedFrom h (failedLookupLocationsOfFile s fp) s s'"
    by (simp add: failedLookupLocationsOfFile_def)
qed

subsection \<open>The resolutions that an invalidation marks\<close>

lemma getResolutionWithResolvedFileName_eq: "getResolutionWithResolvedFileName k = resolvedResult"
  by (rule ext) (simp add: getResolutionWithResolvedFileName_def)

lemma invalidateResolutionsOfContainingFile_entries:
  "invalidateResolutionsOfContainingFile h k isInv fe acc
   = fold (invalidateCachedEntry k isInv) (entriesOfFile h fe) acc"
proof -
  have "fold (invalidateCachedEntry k isInv) (map (\<lambda>entry. (f, d, entry)) rs) a
        = fold (invalidateResolutionEntry k isInv f d) rs a" for f d rs a
    by (induction rs arbitrary: a) (simp_all add: invalidateCachedEntry_def)
  then show ?thesis
    by (cases fe) (simp add: invalidateResolutionsOfContainingFile_def entriesOfFile_def)
qed

lemma fold_invalidateResolutionsOfContainingFile_entries:
  "fold (invalidateResolutionsOfContainingFile h k isInv) c acc
   = fold (invalidateCachedEntry k isInv) (concat (map (entriesOfFile h) c)) acc"
  by (induction c arbitrary: acc) (simp_all add: invalidateResolutionsOfContainingFile_entries)

lemma invalidateResolutionCache_entries:
  "invalidateResolutionCache h k isInv s
   = snd (fold (invalidateCachedEntry k isInv) (cachedEntries h k s) ([], s))"
  by (simp add: invalidateResolutionCache_def cachedEntries_def
      fold_invalidateResolutionsOfContainingFile_entries)

lemma invalidateResolutionEntry_cases:
  assumes "invalidateResolutionEntry k isInv f d (n, r) (seen, t) = (seen', t')"
  obtains (skipped) "(d, n) \<in> set seen" "seen' = seen" "t' = t"
  | (marked) "(d, n) \<notin> set seen" "seen' = (d, n) # seen" "\<not> isInvalidated (heap t r)"
      "isInv (heap t r) resolvedResult"
      "heap t' = (heap t)(r := (heap t r)\<lparr>isInvalidated := True\<rparr>)"
  | (left) "(d, n) \<notin> set seen" "seen' = (d, n) # seen" "t' = t"
      "isInvalidated (heap t r) \<or> \<not> isInv (heap t r) resolvedResult"
proof (cases "(d, n) \<in> set seen")
  case True
  with assms have "seen' = seen" "t' = t" by (simp_all add: invalidateResolutionEntry_def getResolutionWithResolvedFileName_eq)
  with True show ?thesis by (rule skipped)
next
  case False
  show ?thesis
  proof (cases "\<not> isInvalidated (heap t r) \<and> isInv (heap t r) resolvedResult")
    case True
    with assms False have "seen' = (d, n) # seen"
      "heap t' = (heap t)(r := (heap t r)\<lparr>isInvalidated := True\<rparr>)"
      by (auto simp: invalidateResolutionEntry_def getResolutionWithResolvedFileName_eq)
    with False True show ?thesis by (auto intro: marked)
  next
    case notmarked: False
    with assms False have "seen' = (d, n) # seen" "t' = t"
      by (auto simp: invalidateResolutionEntry_def getResolutionWithResolvedFileName_eq)
    with False notmarked show ?thesis by (auto intro: left)
  qed
qed

lemma firstInDirectory_append:
  "i < length es \<Longrightarrow> firstInDirectory (es @ [e]) i = firstInDirectory es i"
  by (simp add: firstInDirectory_def nth_append)

lemma firstInDirectory_last:
  "firstInDirectory (es @ [e]) (length es) = (entryKey e \<notin> entryKey ` set es)"
proof -
  have "(\<forall>j<length es. entryKey (es ! j) \<noteq> entryKey e) = (\<forall>x\<in>set es. entryKey x \<noteq> entryKey e)"
    by (simp add: all_set_conv_all_nth)
  also have "\<dots> = (entryKey e \<notin> entryKey ` set es)" by (force simp: image_iff)
  finally show ?thesis by (simp add: firstInDirectory_def nth_append)
qed

lemma fold_invalidateResolutionEntry_marks:
  assumes stable: "\<And>res b. isInv (res\<lparr>isInvalidated := b\<rparr>) resolvedResult
                           = isInv res resolvedResult"
  shows "fold (invalidateCachedEntry k isInv) es ([], s) = (seen, t)
         \<Longrightarrow> set seen = entryKey ` set es \<and> markedBy isInv es s t"
proof (induction es arbitrary: seen t rule: rev_induct)
  case Nil
  then show ?case by (simp add: markedBy_def)
next
  case (snoc e es)
  let ?g = "resolvedResult :: resolution \<Rightarrow> ResolutionWithResolvedFileName option"
  obtain f d n r where e: "e = (f, d, n, r)" by (cases e)
  obtain seen0 t0 where
    0: "fold (invalidateCachedEntry k isInv) es ([], s) = (seen0, t0)"
    by (cases "fold (invalidateCachedEntry k isInv) es ([], s)")
  from snoc.IH [OF 0] have seen0: "set seen0 = entryKey ` set es"
    and hp0: "\<And>x. heap t0 x = heap s x
                \<or> (isInv (heap s x) ?g \<and> heap t0 x = (heap s x)\<lparr>isInvalidated := True\<rparr>)"
    and first0: "\<And>i. i < length es \<Longrightarrow> firstInDirectory es i
                   \<Longrightarrow> isInv (heap s (entryRef (es ! i))) ?g
                   \<Longrightarrow> isInvalidated (heap t0 (entryRef (es ! i)))"
    by (auto simp: markedBy_def)
  have same: "isInv (heap t0 x) ?g = isInv (heap s x) ?g" for x
    using hp0 [of x] stable by auto
  from snoc.prems have "invalidateCachedEntry k isInv e
      (fold (invalidateCachedEntry k isInv) es ([], s)) = (seen, t)"
    by simp
  then have step: "invalidateResolutionEntry k isInv f d (n, r) (seen0, t0) = (seen, t)"
    unfolding 0 by (simp add: invalidateCachedEntry_def e)
  have key: "entryKey e = (d, n)" and ref: "entryRef e = r"
    by (simp_all add: e entryKey_def entryRef_def)
  from step show ?case
  proof (cases rule: invalidateResolutionEntry_cases)
    case skipped
    with seen0 have notfirst: "\<not> firstInDirectory (es @ [e]) (length es)"
      by (simp add: firstInDirectory_last key)
    have "markedBy isInv (es @ [e]) s t"
      unfolding markedBy_def
    proof (intro conjI allI impI)
      fix x show "heap t x = heap s x
                  \<or> (isInv (heap s x) ?g \<and> heap t x = (heap s x)\<lparr>isInvalidated := True\<rparr>)"
        using hp0 [of x] skipped by simp
    next
      fix i assume i: "i < length (es @ [e])"
        and a: "firstInDirectory (es @ [e]) i
                \<and> isInv (heap s (entryRef ((es @ [e]) ! i))) ?g"
      with notfirst have "i < length es" by (cases "i = length es") auto
      with a first0 [of i] skipped show "isInvalidated (heap t (entryRef ((es @ [e]) ! i)))"
        by (simp add: firstInDirectory_append nth_append)
    qed
    with skipped seen0 key show ?thesis by auto
  next
    case marked
    have "markedBy isInv (es @ [e]) s t"
      unfolding markedBy_def
    proof (intro conjI allI impI)
      fix x show "heap t x = heap s x
                  \<or> (isInv (heap s x) ?g \<and> heap t x = (heap s x)\<lparr>isInvalidated := True\<rparr>)"
        using hp0 [of x] marked(3,4,5) same [of r] by (cases "x = r") auto
    next
      fix i assume i: "i < length (es @ [e])"
        and a: "firstInDirectory (es @ [e]) i
                \<and> isInv (heap s (entryRef ((es @ [e]) ! i))) ?g"
      show "isInvalidated (heap t (entryRef ((es @ [e]) ! i)))"
      proof (cases "i < length es")
        case True
        with a first0 [of i] have "isInvalidated (heap t0 (entryRef (es ! i)))"
          by (simp add: firstInDirectory_append nth_append)
        with True marked(5) show ?thesis by (simp add: nth_append)
      next
        case False
        with i have "i = length es" by simp
        with marked(5) ref show ?thesis by simp
      qed
    qed
    with marked seen0 key show ?thesis by auto
  next
    case left
    have "markedBy isInv (es @ [e]) s t"
      unfolding markedBy_def
    proof (intro conjI allI impI)
      fix x show "heap t x = heap s x
                  \<or> (isInv (heap s x) ?g \<and> heap t x = (heap s x)\<lparr>isInvalidated := True\<rparr>)"
        using hp0 [of x] left by simp
    next
      fix i assume i: "i < length (es @ [e])"
        and a: "firstInDirectory (es @ [e]) i
                \<and> isInv (heap s (entryRef ((es @ [e]) ! i))) ?g"
      show "isInvalidated (heap t (entryRef ((es @ [e]) ! i)))"
      proof (cases "i < length es")
        case True
        with a first0 [of i] left show ?thesis
          by (simp add: firstInDirectory_append nth_append)
      next
        case False
        with i have "i = length es" by simp
        with a left(3,4) same [of r] ref show ?thesis by simp
      qed
    qed
    with left seen0 key show ?thesis by auto
  qed
qed

lemma invalidateResolutionCache_marks:
  assumes "\<And>res b. isInv (res\<lparr>isInvalidated := b\<rparr>) resolvedResult
                    = isInv res resolvedResult"
  shows "markedBy isInv (cachedEntries h k s) s (invalidateResolutionCache h k isInv s)"
proof -
  obtain seen t where
    "fold (invalidateCachedEntry k isInv)
       (cachedEntries h k s) ([], s) = (seen, t)"
    by (cases "fold (invalidateCachedEntry k isInv)
                 (cachedEntries h k s) ([], s)")
  with fold_invalidateResolutionEntry_marks [OF assms this] show ?thesis
    by (simp add: invalidateResolutionCache_entries)
qed

subsection \<open>Invalidating below the ceiling\<close>

lemma onlyInvalidationChanged_same:
  assumes "onlyInvalidationChanged s s'"
  shows "cacheOf k s' = cacheOf k s"
    and "directoryWatchesOfFailedLookups s' = directoryWatchesOfFailedLookups s"
    and "hostLog s' = hostLog s"
    and "hasReachedResolutionIterationLimit h s' = hasReachedResolutionIterationLimit h s"
  using assms
  by (cases k; simp add: onlyInvalidationChanged_def cacheOf_def
        hasReachedResolutionIterationLimit_def)+

lemma fold_invalidateCachedEntry_flag:
  "allFilesHaveInvalidatedResolution (snd (fold (invalidateCachedEntry k isInv) es acc))
   = allFilesHaveInvalidatedResolution (snd acc)"
proof (induction es arbitrary: acc)
  case Nil
  then show ?case by simp
next
  case (Cons e es)
  obtain f d n r where e: "e = (f, d, n, r)" by (cases e)
  obtain seen t where acc: "acc = (seen, t)" by (cases acc)
  have "allFilesHaveInvalidatedResolution (snd (invalidateCachedEntry k isInv e acc))
        = allFilesHaveInvalidatedResolution (snd acc)"
    by (simp add: invalidateCachedEntry_def invalidateResolutionEntry_def e acc)
  with Cons.IH show ?case by simp
qed

lemma invalidateResolutionCache_flag:
  "allFilesHaveInvalidatedResolution (invalidateResolutionCache h k isInv s)
   = allFilesHaveInvalidatedResolution s"
  by (simp add: invalidateResolutionCache_entries fold_invalidateCachedEntry_flag)

lemma markedBy_heap:
  "heap s = heap s0 \<Longrightarrow> markedBy isInv es s t = markedBy isInv es s0 t"
  by (simp add: markedBy_def)


lemma invalidateResolutions_marks:
  assumes stable: "\<And>res b. isInv (res\<lparr>isInvalidated := b\<rparr>) resolvedResult = isInv res resolvedResult"
    and below: "\<not> hasReachedResolutionIterationLimit h s"
  shows "markedBy isInv (cachedEntries h k s) s (invalidateResolutions h isInv s)"
    and "allFilesHaveInvalidatedResolution (invalidateResolutions h isInv s)
         = allFilesHaveInvalidatedResolution s"
proof -
  let ?t1 = "invalidateResolutionCache h ModuleNames isInv s"
  let ?t2 = "invalidateResolutionCache h TypeReferenceDirectives isInv ?t1"
  from below have t2: "invalidateResolutions h isInv s = ?t2" by (simp add: invalidateResolutions_def)
  show "allFilesHaveInvalidatedResolution (invalidateResolutions h isInv s)
        = allFilesHaveInvalidatedResolution s"
    by (simp add: t2 invalidateResolutionCache_flag)
  have m1: "markedBy isInv (cachedEntries h ModuleNames s) s ?t1"
    by (rule invalidateResolutionCache_marks [where isInv = isInv, OF stable])
  have "cachedEntries h TypeReferenceDirectives ?t1 = cachedEntries h TypeReferenceDirectives s"
    using onlyInvalidationChanged_same(1)
            [OF invalidateResolutionCache_frame [of s h ModuleNames isInv], of TypeReferenceDirectives]
    by (simp add: cachedEntries_def)
  with invalidateResolutionCache_marks
         [where isInv = isInv and k = TypeReferenceDirectives and h = h and s = ?t1, OF stable]
  have m2: "markedBy isInv (cachedEntries h TypeReferenceDirectives s) ?t1 ?t2" by simp
  from m1 have h1: "heap ?t1 r = heap s r
      \<or> (isInv (heap s r) resolvedResult \<and> heap ?t1 r = (heap s r)\<lparr>isInvalidated := True\<rparr>)" for r
    by (simp add: markedBy_def)
  from m2 have h2: "heap ?t2 r = heap ?t1 r
      \<or> (isInv (heap ?t1 r) resolvedResult \<and> heap ?t2 r = (heap ?t1 r)\<lparr>isInvalidated := True\<rparr>)" for r
    by (simp add: markedBy_def)
  have same: "isInv (heap ?t1 r) resolvedResult = isInv (heap s r) resolvedResult" for r
    using h1 [of r] stable by auto
  have heap: "heap ?t2 r = heap s r
      \<or> (isInv (heap s r) resolvedResult \<and> heap ?t2 r = (heap s r)\<lparr>isInvalidated := True\<rparr>)" for r
    using h1 [of r] h2 [of r] same [of r] by auto
  have kept: "isInvalidated (heap ?t1 r) \<Longrightarrow> isInvalidated (heap ?t2 r)" for r
    using h2 [of r] by auto
  have "markedBy isInv (cachedEntries h k s) s ?t2"
    unfolding markedBy_def
  proof (intro conjI allI impI)
    fix r
    show "heap ?t2 r = heap s r
      \<or> (isInv (heap s r) resolvedResult \<and> heap ?t2 r = (heap s r)\<lparr>isInvalidated := True\<rparr>)"
      by (rule heap)
  next
    fix i
    assume i: "i < length (cachedEntries h k s)"
      and a: "firstInDirectory (cachedEntries h k s) i
              \<and> isInv (heap s (entryRef (cachedEntries h k s ! i))) resolvedResult"
    show "isInvalidated (heap ?t2 (entryRef (cachedEntries h k s ! i)))"
    proof (cases k)
      case ModuleNames
      from m1 have "\<forall>i<length (cachedEntries h ModuleNames s).
          firstInDirectory (cachedEntries h ModuleNames s) i
          \<and> isInv (heap s (entryRef (cachedEntries h ModuleNames s ! i))) resolvedResult
          \<longrightarrow> isInvalidated (heap ?t1 (entryRef (cachedEntries h ModuleNames s ! i)))"
        unfolding markedBy_def by (rule conjunct2)
      with i a have "isInvalidated (heap ?t1 (entryRef (cachedEntries h k s ! i)))"
        unfolding ModuleNames by blast
      then show ?thesis by (rule kept)
    next
      case TypeReferenceDirectives
      from m2 have "\<forall>i<length (cachedEntries h TypeReferenceDirectives s).
          firstInDirectory (cachedEntries h TypeReferenceDirectives s) i
          \<and> isInv (heap ?t1 (entryRef (cachedEntries h TypeReferenceDirectives s ! i))) resolvedResult
          \<longrightarrow> isInvalidated (heap ?t2 (entryRef (cachedEntries h TypeReferenceDirectives s ! i)))"
        unfolding markedBy_def by (rule conjunct2)
      moreover from a have "isInv (heap ?t1 (entryRef (cachedEntries h k s ! i))) resolvedResult"
        unfolding same by (rule conjunct2)
      ultimately show ?thesis
        using i a unfolding TypeReferenceDirectives by blast
    qed
  qed
  then show "markedBy isInv (cachedEntries h k s) s (invalidateResolutions h isInv s)"
    by (simp add: t2)
qed

lemma resolvesToFile_stable:
  "resolvesToFile h filePath (res\<lparr>isInvalidated := b\<rparr>) resolvedResult
   = resolvesToFile h filePath res resolvedResult"
  by (simp add: resolvesToFile_def)

lemma invalidateResolutionOfFile_effect:
  assumes "invalidateResolutionOfFile h filePath s = Ok s'"
  shows "cacheOf k s' = AList.delete filePath (cacheOf k s)"
    and "releasedFrom h (failedLookupLocationsOfFile s filePath) s s'"
    and "hasReachedResolutionIterationLimit h s'
         \<Longrightarrow> heap s' = heap s \<and> allFilesHaveInvalidatedResolution s'"
    and "\<not> hasReachedResolutionIterationLimit h s'
         \<Longrightarrow> allFilesHaveInvalidatedResolution s' = allFilesHaveInvalidatedResolution s
             \<and> markedBy (resolvesToFile h filePath) (cachedEntries h k s') s s'"
proof -
  from assms obtain s1 where a: "removeResolutionsOfFile h filePath s = Ok s1"
    and b: "s' = invalidateResolutions h (resolvesToFile h filePath) s1"
    by (auto simp: invalidateResolutionOfFile_def andThen_eq_Ok)
  note rem = removeResolutionsOfFile_effect [OF a]
  have fr: "onlyInvalidationChanged s1 s'"
    unfolding b by (rule invalidateResolutions_frame)
  note same = onlyInvalidationChanged_same [OF fr]
  show "cacheOf k s' = AList.delete filePath (cacheOf k s)"
    using same(1) [of k] rem(1) [of k] by simp
  show "releasedFrom h (failedLookupLocationsOfFile s filePath) s s'"
    by (rule releasedFrom_cong [OF rem(4) same(2,3)])
  show "heap s' = heap s \<and> allFilesHaveInvalidatedResolution s'"
    if "hasReachedResolutionIterationLimit h s'"
    using that same(4) [of h] rem(2) by (simp add: b invalidateResolutions_def)
  show "allFilesHaveInvalidatedResolution s' = allFilesHaveInvalidatedResolution s
        \<and> markedBy (resolvesToFile h filePath) (cachedEntries h k s') s s'"
    if "\<not> hasReachedResolutionIterationLimit h s'"
  proof -
    from that same(4) [of h] have below: "\<not> hasReachedResolutionIterationLimit h s1" by simp
    have "cachedEntries h k s' = cachedEntries h k s1"
      using same(1) [of k] by (simp add: cachedEntries_def)
    with invalidateResolutions_marks(1)
           [where isInv = "resolvesToFile h filePath" and h = h and s = s1,
            OF resolvesToFile_stable below, of k]
    show ?thesis
      using rem(2,3) invalidateResolutions_marks(2)
           [where isInv = "resolvesToFile h filePath" and h = h and s = s1,
            OF resolvesToFile_stable below]
      by (simp add: b [symmetric] markedBy_heap [of s1 s])
  qed
qed





lemma placedCount_example:
  "placedCount exampleHost ''/p'' [''/p/b.ts'', ''/p/b.tsx'', ''/p/b.d.ts''] = 3"
  by code_simp



text \<open>
  Below the ceiling, a resolution that is not the first of its directory and name is passed
  over: \<^verbatim>\<open>/p/a.ts\<close> and \<^verbatim>\<open>/p/f.ts\<close> have resolved \<^verbatim>\<open>./c\<close> to \<^verbatim>\<open>/p/c.ts\<close> in two passes, and
  only the resolution of \<^verbatim>\<open>/p/a.ts\<close> is marked.
\<close>

lemma invalidation_passes_over_later_resolution:
  "returns (invalidateResolutionOfFile exampleHost ''/p/c.ts'' cacheOfTwoPasses)
   \<and> \<not> hasReachedResolutionIterationLimit exampleHost
         (returned (invalidateResolutionOfFile exampleHost ''/p/c.ts'' cacheOfTwoPasses) cacheOfTwoPasses)
   \<and> map_of (resolutionsOfFile ModuleNames ''/p/a.ts''
        (returned (invalidateResolutionOfFile exampleHost ''/p/c.ts'' cacheOfTwoPasses)
           cacheOfTwoPasses)) ''./c'' = Some 0
   \<and> map_of (resolutionsOfFile ModuleNames ''/p/f.ts''
        (returned (invalidateResolutionOfFile exampleHost ''/p/c.ts'' cacheOfTwoPasses)
           cacheOfTwoPasses)) ''./c'' = Some 1
   \<and> isInvalidated
        (heap (returned (invalidateResolutionOfFile exampleHost ''/p/c.ts'' cacheOfTwoPasses)
                 cacheOfTwoPasses) 0)
   \<and> resolvesToFile exampleHost ''/p/c.ts''
        (heap (returned (invalidateResolutionOfFile exampleHost ''/p/c.ts'' cacheOfTwoPasses)
                 cacheOfTwoPasses) 1) resolvedResult
   \<and> \<not> isInvalidated
          (heap (returned (invalidateResolutionOfFile exampleHost ''/p/c.ts'' cacheOfTwoPasses)
                   cacheOfTwoPasses) 1)"
  by code_simp

subsection \<open>Releasing only lowers the counts\<close>

lemma finishCachingPerDirectoryResolution_watches:
  "directoryWatchesOfFailedLookups (finishCachingPerDirectoryResolution s)
   = filter (\<lambda>(d, w). refCount w \<noteq> 0) (directoryWatchesOfFailedLookups s)"
  "hostLog (finishCachingPerDirectoryResolution s)
   = hostLog s @ map (\<lambda>(d, w). CloseWatcher (watcher w))
                   (filter (\<lambda>(d, w). refCount w = 0) (directoryWatchesOfFailedLookups s))"
  by (simp_all add: finishCachingPerDirectoryResolution_def)

lemma clear_closes:
  assumes "clear s = Ok s'"
  shows "directoryWatchesOfFailedLookups s' = []
         \<and> (\<forall>(d, w) \<in> set (directoryWatchesOfFailedLookups s). CloseWatcher (watcher w) \<in> set (hostLog s'))"
proof -
  from assms have s': "directoryWatchesOfFailedLookups s' = []"
    "set (hostLog s') = set (hostLog s)
       \<union> (\<lambda>(p, w). CloseWatcher (watcher w)) ` set (directoryWatchesOfFailedLookups s)
       \<union> (\<lambda>(p, w). CloseWatcher w) ` set (typeRootsWatches s)"
    by (auto simp: clear_def Let_def closeTypeRootsWatch_def split: if_splits)
  have "CloseWatcher (watcher w) \<in> set (hostLog s')"
    if "(d, w) \<in> set (directoryWatchesOfFailedLookups s)" for d w
  proof -
    from that have "(\<lambda>(p, w). CloseWatcher (watcher w)) (d, w)
        \<in> (\<lambda>(p, w). CloseWatcher (watcher w)) ` set (directoryWatchesOfFailedLookups s)"
      by (rule imageI)
    then show ?thesis by (simp add: s'(2))
  qed
  with s'(1) show ?thesis by auto
qed

text \<open>
  C4, as the code has it. A removal path only lowers counts: after the release of the failed
  lookup locations of a resolution from an index on, after the eviction of an unused name,
  after \<^verbatim>\<open>removeResolutionsOfFile\<close> and after \<^verbatim>\<open>invalidateResolutionOfFile\<close>, the count of every
  directory is its count before minus the number of the released locations that are watched
  at it, the same directories are watched by the same watchers whatever their counts have
  become, and the host has not been called. \<^verbatim>\<open>finishCachingPerDirectoryResolution()\<close> removes
  exactly the entries with the count 0 and closes their watchers, in the order of the map, so
  that no entry with the count 0 is left. \<^verbatim>\<open>clear()\<close> closes every watcher and empties the map.
\<close>

theorem removal_lowers_counts_until_finish:
  "(stopWatchFailedLookupLocationOfResolutionFrom h r i s = Ok s'
      \<longrightarrow> releasedFrom h (drop i (failedLookupLocationsOfResolution (heap s) r)) s s')
   \<and> (removeUnusedName h k f seen reused (name, r) s = Ok s'
      \<longrightarrow> releasedFrom h
            (if name \<notin> set seen \<and> name \<notin> (case reused of None \<Rightarrow> {} | Some names \<Rightarrow> set names)
             then failedLookupLocationsOfResolution (heap s) r else []) s s')
   \<and> (removeResolutionsOfFile h f s = Ok s'
      \<longrightarrow> releasedFrom h (failedLookupLocationsOfFile s f) s s')
   \<and> (invalidateResolutionOfFile h f s = Ok s'
      \<longrightarrow> releasedFrom h (failedLookupLocationsOfFile s f) s s')
   \<and> directoryWatchesOfFailedLookups (finishCachingPerDirectoryResolution s)
       = filter (\<lambda>(d, w). refCount w \<noteq> 0) (directoryWatchesOfFailedLookups s)
   \<and> hostLog (finishCachingPerDirectoryResolution s)
       = hostLog s @ map (\<lambda>(d, w). CloseWatcher (watcher w))
                       (filter (\<lambda>(d, w). refCount w = 0) (directoryWatchesOfFailedLookups s))
   \<and> noWatchWithoutReference (finishCachingPerDirectoryResolution s)
   \<and> (clear s = Ok s' \<longrightarrow>
         directoryWatchesOfFailedLookups s' = []
         \<and> (\<forall>(d, w) \<in> set (directoryWatchesOfFailedLookups s). CloseWatcher (watcher w) \<in> set (hostLog s')))"
  using stopWatchFailedLookupLocationOfResolutionFrom_released [of h r i s s']
    removeUnusedName_released [of h k f seen reused name r s s']
    removeResolutionsOfFile_effect(4) [of h f s s']
    invalidateResolutionOfFile_effect(2) [of h f s s']
    finishCachingPerDirectoryResolution_watches [of s]
    noWatchWithoutReference_finish [of s]
    clear_closes [of s s']
  by blast

lemma removal_locations:
  "failedLookupLocationsOfFile cacheAfterFirstPass ''/p/a.ts'' = [''/p/b.ts'', ''/p/b.tsx'', ''/p/b.d.ts'']
   \<and> countOf cacheAfterFirstPass ''/p'' = Some 3"
  by code_simp

theorem removal_lowers_counts_until_finish_witness:
  "removeResolutionsOfFile exampleHost ''/p/a.ts'' cacheAfterFirstPass
     = Ok (returned (removeResolutionsOfFile exampleHost ''/p/a.ts'' cacheAfterFirstPass) emptyCache)
   \<and> failedLookupLocationsOfFile cacheAfterFirstPass ''/p/a.ts''
       = [''/p/b.ts'', ''/p/b.tsx'', ''/p/b.d.ts'']
   \<and> placedCount exampleHost ''/p'' [''/p/b.ts'', ''/p/b.tsx'', ''/p/b.d.ts''] = 3
   \<and> countOf cacheAfterFirstPass ''/p'' = Some 3
   \<and> countOf (returned (removeResolutionsOfFile exampleHost ''/p/a.ts'' cacheAfterFirstPass) emptyCache)
        ''/p'' = Some 0
   \<and> watchedDirectories
        (returned (removeResolutionsOfFile exampleHost ''/p/a.ts'' cacheAfterFirstPass) emptyCache)
       = [(''/p'', ''/p'')]
   \<and> hostLog (returned (removeResolutionsOfFile exampleHost ''/p/a.ts'' cacheAfterFirstPass) emptyCache)
       = hostLog cacheAfterFirstPass
   \<and> directoryWatchesOfFailedLookups
        (finishCachingPerDirectoryResolution
           (returned (removeResolutionsOfFile exampleHost ''/p/a.ts'' cacheAfterFirstPass) emptyCache))
       = []
   \<and> hostLog
        (finishCachingPerDirectoryResolution
           (returned (removeResolutionsOfFile exampleHost ''/p/a.ts'' cacheAfterFirstPass) emptyCache))
       = hostLog cacheAfterFirstPass @ [CloseWatcher ''/p'']"
proof -
  let ?s' = "returned (removeResolutionsOfFile exampleHost ''/p/a.ts'' cacheAfterFirstPass) emptyCache"
  have call: "removeResolutionsOfFile exampleHost ''/p/a.ts'' cacheAfterFirstPass = Ok ?s'"
    by (rule returns_Ok [OF removal_returns])
  note lowers = removal_lowers_counts_until_finish
    [of exampleHost undefined undefined cacheAfterFirstPass ?s' undefined "''/p/a.ts''"
        undefined undefined undefined]
  from lowers call
  have rel: "releasedFrom exampleHost (failedLookupLocationsOfFile cacheAfterFirstPass ''/p/a.ts'')
               cacheAfterFirstPass ?s'"
    by blast
  from lowers have fin: "directoryWatchesOfFailedLookups (finishCachingPerDirectoryResolution ?s')
       = filter (\<lambda>(d, w). refCount w \<noteq> 0) (directoryWatchesOfFailedLookups ?s')"
    "hostLog (finishCachingPerDirectoryResolution ?s')
       = hostLog ?s' @ map (\<lambda>(d, w). CloseWatcher (watcher w))
                       (filter (\<lambda>(d, w). refCount w = 0) (directoryWatchesOfFailedLookups ?s'))"
    using removal_lowers_counts_until_finish
      [of exampleHost undefined undefined ?s' ?s' undefined "''/p/a.ts''"
        undefined undefined undefined]
    by blast+
  from rel removal_locations placedCount_example
  have "countOf ?s' ''/p'' = Some 0" "watchedDirectories ?s' = watchedDirectories cacheAfterFirstPass"
    "hostLog ?s' = hostLog cacheAfterFirstPass"
    by (simp_all add: releasedFrom_def)
  with call removal_locations placedCount_example fin removal_watches first_watches show ?thesis
    by (simp add: watchedDirectories_def)
qed

subsection \<open>The ceiling, map by map, after the purge\<close>

lemma hasReachedResolutionIterationLimit_eq:
  "hasReachedResolutionIterationLimit h s
   = (iterationCeiling h < int (length (resolvedModuleNames s))
      \<or> iterationCeiling h < int (length (resolvedTypeReferenceDirectives s)))"
  by (simp add: hasReachedResolutionIterationLimit_def iterationCeiling_def Let_def)

lemma invalidateResolutions_flag:
  "allFilesHaveInvalidatedResolution (invalidateResolutions h isInv s)
   = (hasReachedResolutionIterationLimit h s \<or> allFilesHaveInvalidatedResolution s)"
  by (simp add: invalidateResolutions_def invalidateResolutionCache_flag)

lemma invalidateResolutions_beyond:
  "hasReachedResolutionIterationLimit h s \<Longrightarrow> heap (invalidateResolutions h isInv s) = heap s"
  by (simp add: invalidateResolutions_def)

lemma createHasInvalidatedResolution_predicate:
  "fst (createHasInvalidatedResolution s) p
   = (allFilesHaveInvalidatedResolution s
      \<or> (case filesWithInvalidatedResolutions s of None \<Rightarrow> False | Some fs \<Rightarrow> p \<in> set fs))"
  by (simp add: createHasInvalidatedResolution_def Let_def)

lemma invalidateResolutionOfFile_flag:
  assumes "invalidateResolutionOfFile h filePath s = Ok s'"
  shows "allFilesHaveInvalidatedResolution s'
         = (hasReachedResolutionIterationLimit h s' \<or> allFilesHaveInvalidatedResolution s)"
proof -
  from assms obtain s1 where a: "removeResolutionsOfFile h filePath s = Ok s1"
    and b: "s' = invalidateResolutions h (resolvesToFile h filePath) s1"
    by (auto simp: invalidateResolutionOfFile_def andThen_eq_Ok)
  have "hasReachedResolutionIterationLimit h s' = hasReachedResolutionIterationLimit h s1"
    unfolding b by (rule onlyInvalidationChanged_same(4) [OF invalidateResolutions_frame])
  with removeResolutionsOfFile_effect(3) [OF a] show ?thesis
    by (simp add: b invalidateResolutions_flag)
qed

lemma invalidateResolutionOfFailedLookupLocation_cases:
  "snd (invalidateResolutionOfFailedLookupLocation h fileOrDirectoryPath isCreatingWatchedDirectory s) = s
   \<or> (\<exists>isInv. snd (invalidateResolutionOfFailedLookupLocation h fileOrDirectoryPath
                      isCreatingWatchedDirectory s)
              = invalidateResolutions h isInv s)"
  by (auto simp: invalidateResolutionOfFailedLookupLocation_def Let_def)

text \<open>
  C2, as the code has it. The ceiling is the value of the host, or 256 when the host gives
  none or 0. An invalidation is beyond the ceiling when the per-file map of the module names
  or the per-file map of the type reference directives, each taken alone, holds more
  containing files than the ceiling at the time of the check;
  \<^verbatim>\<open>invalidateResolutionOfFile\<close> checks after it has deleted the entries of the file. Beyond
  the ceiling no resolution is marked, all files are flagged, and the predicate of the next
  \<^verbatim>\<open>createHasInvalidatedResolution()\<close> is true for every path. Otherwise the flag is left as
  it is, and unless it is set the predicate holds exactly of the files collected as having an
  invalidated resolution.
\<close>

theorem createHasInvalidatedResolution_after_invalidation:
  "iterationCeiling h
     = (case hostMaxNumberOfFilesToIterateForInvalidation h of
          None \<Rightarrow> 256 | Some n \<Rightarrow> if n = 0 then 256 else n)
   \<and> hasReachedResolutionIterationLimit h s
       = (iterationCeiling h < int (length (resolvedModuleNames s))
          \<or> iterationCeiling h < int (length (resolvedTypeReferenceDirectives s)))
   \<and> (hasReachedResolutionIterationLimit h s
        \<longrightarrow> fst (createHasInvalidatedResolution (invalidateResolutions h isInvalidatedResolution s)) p
            \<and> allFilesHaveInvalidatedResolution (invalidateResolutions h isInvalidatedResolution s)
            \<and> heap (invalidateResolutions h isInvalidatedResolution s) = heap s)
   \<and> (\<not> hasReachedResolutionIterationLimit h s
        \<longrightarrow> allFilesHaveInvalidatedResolution (invalidateResolutions h isInvalidatedResolution s)
              = allFilesHaveInvalidatedResolution s
            \<and> (\<not> allFilesHaveInvalidatedResolution s
                 \<longrightarrow> fst (createHasInvalidatedResolution
                            (invalidateResolutions h isInvalidatedResolution s)) p
                     = (case filesWithInvalidatedResolutions
                               (invalidateResolutions h isInvalidatedResolution s) of
                          None \<Rightarrow> False | Some fs \<Rightarrow> p \<in> set fs)))
   \<and> (invalidateResolutionOfFile h filePath s = Ok s'
        \<longrightarrow> resolvedModuleNames s' = AList.delete filePath (resolvedModuleNames s)
            \<and> resolvedTypeReferenceDirectives s'
                = AList.delete filePath (resolvedTypeReferenceDirectives s)
            \<and> allFilesHaveInvalidatedResolution s'
                = (hasReachedResolutionIterationLimit h s' \<or> allFilesHaveInvalidatedResolution s)
            \<and> fst (createHasInvalidatedResolution s') p
                = (hasReachedResolutionIterationLimit h s' \<or> allFilesHaveInvalidatedResolution s
                   \<or> (case filesWithInvalidatedResolutions s' of
                         None \<Rightarrow> False | Some fs \<Rightarrow> p \<in> set fs)))
   \<and> (snd (invalidateResolutionOfFailedLookupLocation h fileOrDirectoryPath
              isCreatingWatchedDirectory s) = s
       \<or> (\<exists>isInv. snd (invalidateResolutionOfFailedLookupLocation h fileOrDirectoryPath
                          isCreatingWatchedDirectory s)
                  = invalidateResolutions h isInv s))"
proof -
  have 1: "iterationCeiling h
     = (case hostMaxNumberOfFilesToIterateForInvalidation h of
          None \<Rightarrow> 256 | Some n \<Rightarrow> if n = 0 then 256 else n)"
    by (simp add: iterationCeiling_def maxNumberOfFilesToIterateForInvalidation_def
        split: option.splits)
  have 5: "resolvedModuleNames s' = AList.delete filePath (resolvedModuleNames s)
            \<and> resolvedTypeReferenceDirectives s'
                = AList.delete filePath (resolvedTypeReferenceDirectives s)
            \<and> allFilesHaveInvalidatedResolution s'
                = (hasReachedResolutionIterationLimit h s' \<or> allFilesHaveInvalidatedResolution s)
            \<and> fst (createHasInvalidatedResolution s') p
                = (hasReachedResolutionIterationLimit h s' \<or> allFilesHaveInvalidatedResolution s
                   \<or> (case filesWithInvalidatedResolutions s' of
                         None \<Rightarrow> False | Some fs \<Rightarrow> p \<in> set fs))"
    if call: "invalidateResolutionOfFile h filePath s = Ok s'"
    using invalidateResolutionOfFile_effect(1) [OF call, of ModuleNames]
      invalidateResolutionOfFile_effect(1) [OF call, of TypeReferenceDirectives]
      invalidateResolutionOfFile_flag [OF call]
    by (simp add: cacheOf_def createHasInvalidatedResolution_predicate)
  have 3: "fst (createHasInvalidatedResolution (invalidateResolutions h isInvalidatedResolution s)) p
            \<and> allFilesHaveInvalidatedResolution (invalidateResolutions h isInvalidatedResolution s)
            \<and> heap (invalidateResolutions h isInvalidatedResolution s) = heap s"
    if "hasReachedResolutionIterationLimit h s"
    using that
    by (simp add: createHasInvalidatedResolution_predicate invalidateResolutions_flag
        invalidateResolutions_beyond)
  have 4: "allFilesHaveInvalidatedResolution (invalidateResolutions h isInvalidatedResolution s)
              = allFilesHaveInvalidatedResolution s
            \<and> (\<not> allFilesHaveInvalidatedResolution s
                 \<longrightarrow> fst (createHasInvalidatedResolution
                            (invalidateResolutions h isInvalidatedResolution s)) p
                     = (case filesWithInvalidatedResolutions
                               (invalidateResolutions h isInvalidatedResolution s) of
                          None \<Rightarrow> False | Some fs \<Rightarrow> p \<in> set fs))"
    if "\<not> hasReachedResolutionIterationLimit h s"
    using that
    by (simp add: createHasInvalidatedResolution_predicate invalidateResolutions_flag)
  note 2 = hasReachedResolutionIterationLimit_eq [of h s]
  note 6 = invalidateResolutionOfFailedLookupLocation_cases
             [of h fileOrDirectoryPath isCreatingWatchedDirectory s]
  from 1 2 3 4 5 6 show ?thesis by blast
qed

lemma deletion_beyond_ceiling:
  "returns (invalidateResolutionOfFile exampleHost ''/p/c.ts'' cacheWithThreeFiles)
   \<and> iterationCeiling exampleHost = 2
   \<and> length (resolvedModuleNames
        (returned (invalidateResolutionOfFile exampleHost ''/p/c.ts'' cacheWithThreeFiles)
           cacheWithThreeFiles)) = 3
   \<and> \<not> allFilesHaveInvalidatedResolution cacheWithThreeFiles
   \<and> filesWithInvalidatedResolutions
        (returned (invalidateResolutionOfFile exampleHost ''/p/c.ts'' cacheWithThreeFiles)
           cacheWithThreeFiles) = None"
  by code_simp

theorem createHasInvalidatedResolution_after_invalidation_witness:
  "invalidateResolutionOfFile exampleHost ''/p/c.ts'' cacheWithThreeFiles
     = Ok (returned (invalidateResolutionOfFile exampleHost ''/p/c.ts'' cacheWithThreeFiles)
             cacheWithThreeFiles)
   \<and> iterationCeiling exampleHost = 2
   \<and> length (resolvedModuleNames
        (returned (invalidateResolutionOfFile exampleHost ''/p/c.ts'' cacheWithThreeFiles)
           cacheWithThreeFiles)) = 3
   \<and> hasReachedResolutionIterationLimit exampleHost
        (returned (invalidateResolutionOfFile exampleHost ''/p/c.ts'' cacheWithThreeFiles)
           cacheWithThreeFiles)
   \<and> \<not> allFilesHaveInvalidatedResolution cacheWithThreeFiles
   \<and> filesWithInvalidatedResolutions
        (returned (invalidateResolutionOfFile exampleHost ''/p/c.ts'' cacheWithThreeFiles)
           cacheWithThreeFiles) = None
   \<and> fst (createHasInvalidatedResolution
            (returned (invalidateResolutionOfFile exampleHost ''/p/c.ts'' cacheWithThreeFiles)
               cacheWithThreeFiles)) ''/p/d/e.ts''"
proof -
  let ?s' = "returned (invalidateResolutionOfFile exampleHost ''/p/c.ts'' cacheWithThreeFiles)
               cacheWithThreeFiles"
  have call: "invalidateResolutionOfFile exampleHost ''/p/c.ts'' cacheWithThreeFiles = Ok ?s'"
    using deletion_beyond_ceiling by (auto intro: returns_Ok)
  note ceiling = createHasInvalidatedResolution_after_invalidation
    [where h = exampleHost and p = "''/p/d/e.ts''" and filePath = "''/p/c.ts''"
       and s' = ?s']
  from ceiling [of ?s'] deletion_beyond_ceiling
  have beyond: "hasReachedResolutionIterationLimit exampleHost ?s'" by simp
  from ceiling [of cacheWithThreeFiles] call have "fst (createHasInvalidatedResolution ?s') ''/p/d/e.ts''
      = (hasReachedResolutionIterationLimit exampleHost ?s'
         \<or> allFilesHaveInvalidatedResolution cacheWithThreeFiles
         \<or> (case filesWithInvalidatedResolutions ?s' of
               None \<Rightarrow> False | Some fs \<Rightarrow> ''/p/d/e.ts'' \<in> set fs))"
    by blast
  with beyond call deletion_beyond_ceiling show ?thesis by simp
qed

text \<open>
  C2, as the claim states it, fails. Three containing files are cached, the ceiling is 2 and
  \<^verbatim>\<open>/p/f.ts\<close>, one of the three, is deleted: the check comes after the purge and finds two
  files. Four containing files are cached, two in each per-file map, the ceiling is 2 and
  \<^verbatim>\<open>/p/c.ts\<close> is deleted: each map alone holds two files. In both cases more distinct
  containing files than the ceiling are cached when the event is processed, and the predicate
  of the next \<^verbatim>\<open>createHasInvalidatedResolution()\<close> is not true for \<^verbatim>\<open>/p/d/e.ts\<close>.
\<close>

theorem containing_files_beyond_ceiling_precise_predicate:
  "iterationCeiling exampleHost = 2
   \<and> length (cachedContainingFiles cacheWithThreeFiles) = 3
   \<and> returns (invalidateResolutionOfFile exampleHost ''/p/f.ts'' cacheWithThreeFiles)
   \<and> \<not> fst (createHasInvalidatedResolution
              (returned (invalidateResolutionOfFile exampleHost ''/p/f.ts'' cacheWithThreeFiles)
                 cacheWithThreeFiles)) ''/p/d/e.ts''
   \<and> length (cachedContainingFiles cacheWithTwoAndTwoFiles) = 4
   \<and> returns (invalidateResolutionOfFile exampleHost ''/p/c.ts'' cacheWithTwoAndTwoFiles)
   \<and> fst (createHasInvalidatedResolution
            (returned (invalidateResolutionOfFile exampleHost ''/p/c.ts'' cacheWithTwoAndTwoFiles)
               cacheWithTwoAndTwoFiles)) ''/p/a.ts''
   \<and> \<not> fst (createHasInvalidatedResolution
              (returned (invalidateResolutionOfFile exampleHost ''/p/c.ts'' cacheWithTwoAndTwoFiles)
                 cacheWithTwoAndTwoFiles)) ''/p/d/e.ts''"
  by code_simp

end
